theory Spec2Isabelle
  imports Complex_Main
begin

section \<open>Python string primitives used by the chunker\<close>

text \<open>
  A Python \<open>str\<close> is modelled as a \<open>string\<close>; one \<open>char\<close> stands for one code point
  (the code points below 256). \<open>is_space\<close> is \<open>str.isspace\<close> on that range:
  TAB..CR, FS..US, SPACE, NEL and NBSP.
\<close>

definition is_space :: "char \<Rightarrow> bool" where
  "is_space c =
     (let n = (of_char c :: nat)
      in (9 \<le> n \<and> n \<le> 13) \<or> (28 \<le> n \<and> n \<le> 32) \<or> n = 133 \<or> n = 160)"

text \<open>\<open>s.strip()\<close>: leading and trailing whitespace removed.\<close>

definition strip :: "string \<Rightarrow> string" where
  "strip s = rev (dropWhile is_space (rev (dropWhile is_space s)))"

text \<open>
  Slice indices as Python adjusts them for a sequence of length \<open>n\<close>: a negative index
  counts from the end, and the result is clamped to \<open>0..n\<close>.
\<close>

definition adjust_index :: "nat \<Rightarrow> int \<Rightarrow> nat" where
  "adjust_index n i =
     (if i < 0 then (if i + int n < 0 then 0 else nat (i + int n))
      else if int n < i then n else nat i)"

text \<open>\<open>s[i:j]\<close>; empty when the adjusted \<open>j\<close> is not beyond the adjusted \<open>i\<close>.\<close>

definition slice :: "'a list \<Rightarrow> int \<Rightarrow> int \<Rightarrow> 'a list" where
  "slice s i j =
     (let a = adjust_index (length s) i; b = adjust_index (length s) j
      in take (b - a) (drop a s))"

text \<open>
  \<open>s.rfind(c, i, j)\<close> for a one-character \<open>c\<close>: the highest index \<open>k\<close> of \<open>s[i:j]\<close>
  with \<open>s[k] == c\<close>, and \<open>-1\<close> when there is none.
\<close>

definition rfind :: "string \<Rightarrow> char \<Rightarrow> int \<Rightarrow> int \<Rightarrow> int" where
  "rfind s c i j =
     (let a = adjust_index (length s) i; b = adjust_index (length s) j
      in case filter (\<lambda>k. s ! k = c) (rev [a..<b]) of
           [] \<Rightarrow> - 1
         | k # _ \<Rightarrow> int k)"

section \<open>The text chunker (app/utils/text\_utils.py)\<close>

text \<open>
  The end of the window that starts at \<open>start\<close> (lines 40 to 51 of \<open>chunk_text\<close>):
  \<open>start + chunk_size\<close>, moved back to just after the right-most sentence terminator
  found by the three \<open>rfind\<close> calls when the nominal end lies inside the text and that
  terminator lies beyond \<open>start\<close>.
\<close>

definition window_end :: "string \<Rightarrow> int \<Rightarrow> int \<Rightarrow> int" where
  "window_end text chunk_size start =
     (let end0 = start + chunk_size
      in if end0 < int (length text) then
           (let last_period = rfind text (CHR ''.'') (end0 - 100) end0;
                last_question = rfind text (CHR ''?'') (end0 - 100) end0;
                last_exclamation = rfind text (CHR ''!'') (end0 - 100) end0;
                break_point = max (max last_period last_question) last_exclamation
            in if break_point > start then break_point + 1 else end0)
         else end0)"

text \<open>
  The \<open>while start < len(text)\<close> loop. The loop may run forever, so it is a partial
  function into \<open>option\<close>: \<open>None\<close> is "does not return".
\<close>

partial_function (option) chunk_loop ::
  "string \<Rightarrow> int \<Rightarrow> int \<Rightarrow> int \<Rightarrow> string list \<Rightarrow> string list option" where
  "chunk_loop text chunk_size overlap start chunks =
     (if start < int (length text) then
        (let end1 = window_end text chunk_size start;
             chunk = strip (slice text start end1);
             chunks1 = (if chunk \<noteq> [] then chunks @ [chunk] else chunks)
         in chunk_loop text chunk_size overlap (end1 - overlap) chunks1)
      else Some chunks)"

declare chunk_loop.simps [code]

definition chunk_text :: "string \<Rightarrow> int \<Rightarrow> int \<Rightarrow> string list option" where
  "chunk_text text chunk_size overlap =
     (if int (length text) \<le> chunk_size then Some [text]
      else chunk_loop text chunk_size overlap 0 [])"

section \<open>Text cleaning (app/utils/text\_utils.py)\<close>

text \<open>
  \<open>re.sub(r'\s+', ' ', text)\<close>: every maximal run of whitespace becomes one space.
\<close>

function sub_whitespace :: "string \<Rightarrow> string" where
  "sub_whitespace [] = []"
| "sub_whitespace (c # cs) =
     (if is_space c then CHR '' '' # sub_whitespace (dropWhile is_space cs)
      else c # sub_whitespace cs)"
  by pat_completeness auto
termination
  by (relation "measure length") (auto simp: le_imp_less_Suc length_dropWhile_le)

text \<open>
  The regular expression class \<open>\w\<close> on code points below 256: the alphanumeric
  characters and the underscore.
\<close>

definition is_word :: "char \<Rightarrow> bool" where
  "is_word c =
     (let n = (of_char c :: nat)
      in (48 \<le> n \<and> n \<le> 57) \<or> (65 \<le> n \<and> n \<le> 90) \<or> n = 95 \<or> (97 \<le> n \<and> n \<le> 122) \<or>
         n = 170 \<or> n = 178 \<or> n = 179 \<or> n = 181 \<or> n = 185 \<or> n = 186 \<or>
         (188 \<le> n \<and> n \<le> 190) \<or> (192 \<le> n \<and> n \<le> 214) \<or> (216 \<le> n \<and> n \<le> 246) \<or>
         (248 \<le> n \<and> n \<le> 255))"

text \<open>The characters kept by \<open>re.sub(r"[^\w\s.,!?;:()\-']", '', text)\<close>.\<close>

definition kept_char :: "char \<Rightarrow> bool" where
  "kept_char c = (is_word c \<or> is_space c \<or> c \<in> set ''.,!?;:()-'' \<or> c = CHR 0x27)"

definition clean_text :: "string \<Rightarrow> string" where
  "clean_text text = strip (filter kept_char (sub_whitespace text))"

section \<open>Values, exceptions and the collaborators\<close>

text \<open>
  An exception is its class and its message. \<open>External\<close> is an exception of any other
  class, raised by a library or service the code calls.
\<close>

datatype exn = ValueError string | Exception string | External string string

fun exn_str :: "exn \<Rightarrow> string" where
  "exn_str (ValueError m) = m"
| "exn_str (Exception m) = m"
| "exn_str (External cls m) = m"

text \<open>The values stored in metadata and payload dictionaries.\<close>

datatype meta_value = MStr string | MInt int

type_synonym payload = "string \<rightharpoonup> meta_value"

text \<open>An embedding is a list of floats; the code does no arithmetic on them.\<close>

type_synonym vector = "real list"

datatype task_type = RetrievalDocument | RetrievalQuery

text \<open>\<open>PointStruct(id, vector, payload)\<close> and the scored points \<open>client.search\<close> returns.\<close>

record point =
  point_id :: string
  point_vector :: vector
  point_payload :: payload

record scored_point =
  sp_id :: string
  sp_score :: real
  sp_payload :: payload

text \<open>
  The collaborators, outside the repository: the per-type text extractors (which read the
  file), the Gemini embedding and generation calls, the Qdrant client, \<open>uuid.uuid4\<close>,
  the clock and \<open>os.remove\<close>. Each call either returns or raises.
\<close>

record env =
  extract_text :: "string \<Rightarrow> string \<Rightarrow> exn + string"
  embed_content :: "task_type \<Rightarrow> string \<Rightarrow> exn + vector"
  generate_content :: "string \<Rightarrow> exn + string"
  client_upsert :: "point list \<Rightarrow> exn option"
  client_search ::
    "point list list \<Rightarrow> vector \<Rightarrow> int \<Rightarrow> (string \<times> meta_value) list option \<Rightarrow> exn + scored_point list"
  uuid4 :: "nat \<Rightarrow> string"
  utcnow_isoformat :: "nat \<Rightarrow> string"
  remove_fails :: "string \<Rightarrow> bool"

text \<open>
  The state the code changes: the files on disk, the batches handed to \<open>client.upsert\<close>
  (oldest first), and how many identifiers and clock readings have been drawn.
  Log lines are not modelled.
\<close>

record world =
  files :: "string set"
  upserts :: "point list list"
  uuid_count :: nat
  clock_reads :: nat

definition EMBEDDING_DIMENSION :: nat where
  "EMBEDDING_DIMENSION = 3072"

definition TOP_K_RESULTS :: int where
  "TOP_K_RESULTS = 5"

section \<open>File deletion (app/utils/file\_utils.py)\<close>

text \<open>\<open>delete_file\<close> removes the file when it exists; a failing \<open>os.remove\<close> is swallowed.\<close>

definition delete_file :: "env \<Rightarrow> string \<Rightarrow> world \<Rightarrow> world" where
  "delete_file env file_path w =
     (if file_path \<in> files w then
        (if remove_fails env file_path then w
         else w\<lparr>files := files w - {file_path}\<rparr>)
      else w)"

section \<open>The document processor (app/core/document\_processor.py)\<close>

text \<open>\<open>s.split(sep)[-1]\<close>, which is also \<open>os.path.basename\<close> for \<open>sep = '/'\<close>.\<close>

definition split_last :: "char \<Rightarrow> string \<Rightarrow> string" where
  "split_last sep s = rev (takeWhile (\<lambda>c. c \<noteq> sep) (rev s))"

definition lower_char :: "char \<Rightarrow> char" where
  "lower_char c =
     (let n = (of_char c :: nat)
      in if (65 \<le> n \<and> n \<le> 90) \<or> (192 \<le> n \<and> n \<le> 222 \<and> n \<noteq> 215) then char_of (n + 32) else c)"

definition lower :: "string \<Rightarrow> string" where
  "lower s = map lower_char s"

definition supported_types :: "string list" where
  "supported_types = [''pdf'', ''txt'', ''xlsx'', ''xls'', ''png'', ''jpg'', ''jpeg'']"

text \<open>
  \<open>process_document\<close> returns the chunks and the base metadata, or raises. The outer
  \<open>option\<close> is \<open>None\<close> when \<open>chunk_text\<close> does not return.
\<close>

definition process_document :: "env \<Rightarrow> string \<Rightarrow> (exn + string list \<times> payload) option" where
  "process_document env file_path =
     (let file_ext = lower (split_last (CHR ''.'') file_path);
          fname = split_last (CHR ''/'') file_path
      in if file_ext \<notin> set supported_types then
           Some (Inl (ValueError (''Unsupported file type: '' @ file_ext)))
         else
           (case extract_text env file_ext file_path of
              Inl e \<Rightarrow> Some (Inl e)
            | Inr raw \<Rightarrow>
                (let text = clean_text raw
                 in if strip text = [] then
                      Some (Inl (ValueError ''No text could be extracted from document''))
                    else
                      (case chunk_text text 1000 200 of
                         None \<Rightarrow> None
                       | Some chunks \<Rightarrow>
                           Some (Inr (chunks,
                             [''filename'' \<mapsto> MStr fname,
                              ''file_type'' \<mapsto> MStr file_ext,
                              ''total_chunks'' \<mapsto> MInt (int (length chunks))]))))))"

section \<open>The Gemini client (app/core/llm\_client.py)\<close>

definition generate_response :: "env \<Rightarrow> string \<Rightarrow> exn + string" where
  "generate_response env prompt =
     (case generate_content env prompt of
        Inl e \<Rightarrow> Inl (Exception (''Failed to generate response: '' @ exn_str e))
      | Inr text \<Rightarrow> Inr text)"

definition generate_embeddings :: "env \<Rightarrow> string \<Rightarrow> exn + vector" where
  "generate_embeddings env text =
     (case embed_content env RetrievalDocument text of
        Inl e \<Rightarrow> Inl (Exception (''Failed to generate embeddings: '' @ exn_str e))
      | Inr embedding \<Rightarrow> Inr embedding)"

definition generate_query_embedding :: "env \<Rightarrow> string \<Rightarrow> exn + vector" where
  "generate_query_embedding env query =
     (case embed_content env RetrievalQuery query of
        Inl e \<Rightarrow> Inl (Exception (''Failed to generate query embeddings: '' @ exn_str e))
      | Inr embedding \<Rightarrow> Inr embedding)"

text \<open>Decimal \<open>str\<close> of an integer, \<open>str\<close> of a metadata value, and \<open>sep.join\<close>.\<close>

fun str_nat :: "nat \<Rightarrow> string" where
  "str_nat n =
     (if n < 10 then [char_of (48 + n)] else str_nat (n div 10) @ [char_of (48 + n mod 10)])"

declare str_nat.simps [simp del]

definition str_int :: "int \<Rightarrow> string" where
  "str_int i = (if i < 0 then CHR ''-'' # str_nat (nat (- i)) else str_nat (nat i))"

fun str_meta :: "meta_value \<Rightarrow> string" where
  "str_meta (MStr s) = s"
| "str_meta (MInt i) = str_int i"

fun join :: "string \<Rightarrow> string list \<Rightarrow> string" where
  "join sep [] = []"
| "join sep [x] = x"
| "join sep (x # y # ys) = x @ sep @ join sep (y # ys)"

definition newline :: string where
  "newline = [CHR 0x0A]"

definition rag_prompt :: "string \<Rightarrow> meta_value list \<Rightarrow> string" where
  "rag_prompt query context =
     (let context_text =
            join (newline @ newline)
              (map (\<lambda>(i, doc). ''Document '' @ str_nat (i + 1) @ '':'' @ newline @ str_meta doc)
                 (zip [0..<length context] context))
      in ''You are a helpful AI assistant. Answer the user'' @ [CHR 0x27] @
         ''s question based on the provided context documents.'' @ newline @ newline @
         ''Context Documents:'' @ newline @ context_text @ newline @ newline @
         ''User Question: '' @ query @ newline @ newline @
         ''Instructions:'' @ newline @
         ''- Answer based primarily on the context provided'' @ newline @
         ''- If the context doesn'' @ [CHR 0x27] @ ''t contain enough information, say so'' @ newline @
         ''- Be concise and accurate'' @ newline @
         ''- Cite which document number you'' @ [CHR 0x27] @
         ''re referencing when relevant'' @ newline @ newline @
         ''Answer:'')"

definition generate_rag_response :: "env \<Rightarrow> string \<Rightarrow> meta_value list \<Rightarrow> exn + string" where
  "generate_rag_response env query context = generate_response env (rag_prompt query context)"

section \<open>The vector store (app/core/vector\_store.py)\<close>

text \<open>
  The loop of \<open>add_documents\<close> over \<open>zip(texts, embeddings, metadata)\<close>: one identifier and
  one timestamp are drawn per point, and the text and the timestamp are written into the
  point's metadata.
\<close>

fun build_points ::
  "env \<Rightarrow> world \<Rightarrow> (string \<times> vector \<times> payload) list \<Rightarrow> (point list \<times> string list) \<times> world" where
  "build_points env w [] = (([], []), w)"
| "build_points env w ((text, embedding, meta) # rest) =
     (let doc_id = uuid4 env (uuid_count w);
          w1 = w\<lparr>uuid_count := Suc (uuid_count w)\<rparr>;
          meta1 = meta(''text'' \<mapsto> MStr text);
          meta2 = meta1(''timestamp'' \<mapsto> MStr (utcnow_isoformat env (clock_reads w1)));
          w2 = w1\<lparr>clock_reads := Suc (clock_reads w1)\<rparr>;
          p = \<lparr>point_id = doc_id, point_vector = embedding, point_payload = meta2\<rparr>;
          ((points, doc_ids), w3) = build_points env w2 rest
      in ((p # points, doc_id # doc_ids), w3))"

definition add_documents ::
  "env \<Rightarrow> world \<Rightarrow> string list \<Rightarrow> vector list \<Rightarrow> payload list \<Rightarrow> (exn + string list) \<times> world" where
  "add_documents env w texts embeddings metadata =
     (let ((points, doc_ids), w1) = build_points env w (zip texts (zip embeddings metadata));
          w2 = w1\<lparr>upserts := upserts w1 @ [points]\<rparr>
      in case client_upsert env points of
           Some e \<Rightarrow> (Inl e, w2)
         | None \<Rightarrow> (Inr doc_ids, w2))"

text \<open>The dictionaries \<open>search\<close> builds from the scored points.\<close>

record search_result =
  res_id :: string
  res_score :: real
  res_text :: meta_value
  res_metadata :: payload

definition format_result :: "scored_point \<Rightarrow> search_result" where
  "format_result r =
     \<lparr>res_id = sp_id r,
      res_score = sp_score r,
      res_text = (case sp_payload r ''text'' of None \<Rightarrow> MStr [] | Some v \<Rightarrow> v),
      res_metadata = (\<lambda>k. if k \<noteq> ''text'' then sp_payload r k else None)\<rparr>"

definition search ::
  "env \<Rightarrow> world \<Rightarrow> vector \<Rightarrow> int option \<Rightarrow> (string \<times> meta_value) list option \<Rightarrow>
     exn + search_result list" where
  "search env w query_embedding top_k filter_dict =
     (let top_k1 = (case top_k of None \<Rightarrow> TOP_K_RESULTS | Some k \<Rightarrow> k);
          search_filter =
            (case filter_dict of
               None \<Rightarrow> None
             | Some conditions \<Rightarrow> if conditions = [] then None else Some conditions)
      in case client_search env (upserts w) query_embedding top_k1 search_filter of
           Inl e \<Rightarrow> Inl e
         | Inr search_results \<Rightarrow> Inr (map format_result search_results))"

section \<open>The RAG engine (app/core/rag\_engine.py)\<close>

text \<open>The embedding loop of the ingest: the first call that raises ends it.\<close>

fun embed_chunks :: "env \<Rightarrow> string list \<Rightarrow> exn + vector list" where
  "embed_chunks env [] = Inr []"
| "embed_chunks env (chunk # chunks) =
     (case generate_embeddings env chunk of
        Inl e \<Rightarrow> Inl e
      | Inr embedding \<Rightarrow>
          (case embed_chunks env chunks of
             Inl e \<Rightarrow> Inl e
           | Inr embeddings \<Rightarrow> Inr (embedding # embeddings)))"

definition metadata_list :: "payload \<Rightarrow> nat \<Rightarrow> payload list" where
  "metadata_list base_metadata n =
     map (\<lambda>i. base_metadata(''chunk_index'' \<mapsto> MInt (int i))) [0..<n]"

record ingest_result =
  success :: bool
  message :: string
  document_ids :: "string list"
  filename :: meta_value
  chunks_count :: nat

text \<open>
  \<open>process_and_store_document\<close>: every exception inside the \<open>try\<close> reaches the handler,
  which deletes the file and raises the exception again.
\<close>

definition process_and_store_document ::
  "env \<Rightarrow> world \<Rightarrow> string \<Rightarrow> ((exn + ingest_result) \<times> world) option" where
  "process_and_store_document env w file_path =
     (case process_document env file_path of
        None \<Rightarrow> None
      | Some (Inl e) \<Rightarrow> Some (Inl e, delete_file env file_path w)
      | Some (Inr (chunks, base_metadata)) \<Rightarrow>
          if chunks = [] then
            Some (Inl (ValueError ''No text chunks extracted from document''),
                  delete_file env file_path w)
          else
            (case embed_chunks env chunks of
               Inl e \<Rightarrow> Some (Inl e, delete_file env file_path w)
             | Inr embeddings \<Rightarrow>
                 (case add_documents env w chunks embeddings
                         (metadata_list base_metadata (length chunks)) of
                    (Inl e, w1) \<Rightarrow> Some (Inl e, delete_file env file_path w1)
                  | (Inr doc_ids, w1) \<Rightarrow>
                      (let w2 = delete_file env file_path w1
                       in case base_metadata ''filename'' of
                            None \<Rightarrow>
                              Some (Inl (External ''KeyError'' ''filename''),
                                    delete_file env file_path w2)
                          | Some fname \<Rightarrow>
                              Some (Inr \<lparr>success = True,
                                         message = ''Document processed and stored successfully'',
                                         document_ids = doc_ids,
                                         filename = fname,
                                         chunks_count = length chunks\<rparr>, w2)))))"

record query_result =
  response :: string
  conversation_id :: string
  sources :: "meta_value list"
  has_context :: bool
  relevance_scores :: "real list option"

definition fresh_uuid :: "env \<Rightarrow> world \<Rightarrow> string \<times> world" where
  "fresh_uuid env w = (uuid4 env (uuid_count w), w\<lparr>uuid_count := Suc (uuid_count w)\<rparr>)"

text \<open>
  \<open>list(set(xs))\<close>: the distinct elements of \<open>xs\<close>. Python leaves their order open;
  the model keeps the order of last occurrences, and the properties below do not depend
  on it.
\<close>

definition list_of_set :: "'a list \<Rightarrow> 'a list" where
  "list_of_set xs = remdups xs"

definition no_context_prompt :: "string \<Rightarrow> string" where
  "no_context_prompt user_query =
     ''Answer this question: '' @ user_query @ newline @ newline @
     ''Note: No reference documents are available.''"

text \<open>
  \<open>query\<close>; \<open>cid\<close> is the optional \<open>conversation_id\<close> argument, and
  \<open>not conversation_id\<close> holds for \<open>None\<close> and for the empty string.
\<close>

definition query ::
  "env \<Rightarrow> world \<Rightarrow> string \<Rightarrow> string option \<Rightarrow> int \<Rightarrow> (exn + query_result) \<times> world" where
  "query env w user_query cid top_k =
     (let (conv, w1) =
            (case cid of
               None \<Rightarrow> fresh_uuid env w
             | Some s \<Rightarrow> if s = [] then fresh_uuid env w else (s, w))
      in case generate_query_embedding env user_query of
           Inl e \<Rightarrow> (Inl e, w1)
         | Inr query_embedding \<Rightarrow>
             (case search env w1 query_embedding (Some top_k) None of
                Inl e \<Rightarrow> (Inl e, w1)
              | Inr search_results \<Rightarrow>
                  if search_results = [] then
                    (case generate_response env (no_context_prompt user_query) of
                       Inl e \<Rightarrow> (Inl e, w1)
                     | Inr r \<Rightarrow>
                         (Inr \<lparr>response = r, conversation_id = conv, sources = [],
                               has_context = False, relevance_scores = None\<rparr>, w1))
                  else
                    (let context_chunks = map res_text search_results;
                         srcs = list_of_set
                                  (map (\<lambda>result. case res_metadata result ''filename'' of
                                                    None \<Rightarrow> MStr ''Unknown''
                                                  | Some v \<Rightarrow> v) search_results)
                     in case generate_rag_response env user_query context_chunks of
                          Inl e \<Rightarrow> (Inl e, w1)
                        | Inr r \<Rightarrow>
                            (Inr \<lparr>response = r, conversation_id = conv, sources = srcs,
                                  has_context = True,
                                  relevance_scores = Some (map res_score search_results)\<rparr>, w1))))"


section \<open>Sample collaborators for the worked examples\<close>

text \<open>
  An uploaded text file of 1500 letters (two chunks), an embedding model that answers
  with three-dimensional vectors, a store that accepts every batch and finds nothing,
  identifiers \<open>id-\<close>, \<open>id-i\<close>, \<open>id-ii\<close>, \<dots>, and a file system that lets the file be removed.
\<close>

definition sample_env :: env where
  "sample_env =
     \<lparr>extract_text = (\<lambda>file_ext file_path. Inr (replicate 1500 (CHR ''a''))),
      embed_content = (\<lambda>task text. Inr [1, 2, 3]),
      generate_content = (\<lambda>prompt. Inr ''An answer.''),
      client_upsert = (\<lambda>points. None),
      client_search = (\<lambda>log query_vector limit query_filter. Inr []),
      uuid4 = (\<lambda>n. ''id-'' @ replicate n (CHR ''i'')),
      utcnow_isoformat = (\<lambda>n. ''2024-01-01T00:00:0'' @ str_nat n),
      remove_fails = (\<lambda>file_path. False)\<rparr>"

definition sample_world :: world where
  "sample_world = \<lparr>files = {''uploads/doc.txt''}, upserts = [], uuid_count = 0, clock_reads = 0\<rparr>"

text \<open>The same, with an embedding call that fails on the second chunk (700 letters).\<close>

definition quota_env :: env where
  "quota_env =
     sample_env\<lparr>embed_content :=
       (\<lambda>task text. if length text = 700
                     then Inl (External ''ResourceExhausted'' ''quota exceeded'')
                     else Inr [1, 2, 3])\<rparr>"

text \<open>
  The same, with a store that finds three points: two of \<open>doc_a.pdf\<close> and one whose
  payload has no \<open>filename\<close>.
\<close>

definition sample_hits :: "scored_point list" where
  "sample_hits =
     [\<lparr>sp_id = ''p1'', sp_score = 3,
       sp_payload = [''text'' \<mapsto> MStr ''X is a letter.'', ''filename'' \<mapsto> MStr ''doc_a.pdf'']\<rparr>,
      \<lparr>sp_id = ''p2'', sp_score = 2,
       sp_payload = [''text'' \<mapsto> MStr ''X marks the spot.'', ''filename'' \<mapsto> MStr ''doc_a.pdf'']\<rparr>,
      \<lparr>sp_id = ''p3'', sp_score = 1,
       sp_payload = [''text'' \<mapsto> MStr ''No name.'']\<rparr>]"

definition hits_env :: env where
  "hits_env =
     sample_env\<lparr>client_search := (\<lambda>log query_vector limit query_filter. Inr sample_hits)\<rparr>"


text \<open>The two environments above on a disk where \<open>os.remove\<close> fails.\<close>

definition readonly_env :: env where
  "readonly_env = sample_env\<lparr>remove_fails := (\<lambda>file_path. True)\<rparr>"

definition readonly_quota_env :: env where
  "readonly_quota_env = quota_env\<lparr>remove_fails := (\<lambda>file_path. True)\<rparr>"

section \<open>Properties of the string primitives and of the chunker\<close>

lemma adjust_index_le: "adjust_index n i \<le> n"
  by (auto simp: adjust_index_def)

lemma adjust_index_nonneg: "0 \<le> i \<Longrightarrow> adjust_index n i = min n (nat i)"
  by (auto simp: adjust_index_def)

lemma rfind_range:
  "rfind s c i j = - 1 \<or>
   (int (adjust_index (length s) i) \<le> rfind s c i j \<and> rfind s c i j < int (adjust_index (length s) j))"
proof (cases "filter (\<lambda>k. s ! k = c) (rev [adjust_index (length s) i..<adjust_index (length s) j])")
  case Nil
  then show ?thesis by (simp add: rfind_def)
next
  case (Cons k ks)
  then have "k \<in> set (filter (\<lambda>k. s ! k = c) (rev [adjust_index (length s) i..<adjust_index (length s) j]))"
    by simp
  then have "adjust_index (length s) i \<le> k \<and> k < adjust_index (length s) j" by simp
  with Cons show ?thesis by (simp add: rfind_def)
qed

lemma rfind_absent: "c \<notin> set s \<Longrightarrow> rfind s c i j = - 1"
proof -
  assume a: "c \<notin> set s"
  have "filter (\<lambda>k. s ! k = c) (rev [adjust_index (length s) i..<adjust_index (length s) j]) = []"
  proof (rule filter_False, safe)
    fix k assume k: "k \<in> set (rev [adjust_index (length s) i..<adjust_index (length s) j])" and e: "c = s ! k"
    from k have "k < length s" using adjust_index_le [of "length s" j] by simp
    then have "s ! k \<in> set s" by simp
    with a e show False by simp
  qed
  then show ?thesis by (simp add: rfind_def)
qed

lemma rfind_range_nonneg:
  assumes "0 \<le> i" "0 \<le> j"
  shows "rfind s c i j = - 1 \<or> (i \<le> rfind s c i j \<and> rfind s c i j < j)"
  using rfind_range [of s c i j] assms
  by (auto simp: adjust_index_def split: if_splits)

lemma window_end_bounds:
  assumes "0 \<le> s" "100 \<le> cs"
  shows "s + cs - 99 \<le> window_end t cs s \<and> window_end t cs s \<le> s + cs"
proof -
  have i: "0 \<le> s + cs - 100" and j: "0 \<le> s + cs" using assms by simp_all
  show ?thesis
    using assms rfind_range_nonneg [OF i j, of t "CHR ''.''"]
          rfind_range_nonneg [OF i j, of t "CHR ''?''"]
          rfind_range_nonneg [OF i j, of t "CHR ''!''"]
    by (auto simp: window_end_def Let_def)
qed

lemma window_end_lower:
  "0 \<le> s \<Longrightarrow> 100 \<le> cs \<Longrightarrow> s + cs - 99 \<le> window_end t cs s"
  using window_end_bounds by blast

lemma window_end_past: "int (length t) \<le> s + cs \<Longrightarrow> window_end t cs s = s + cs"
  by (simp add: window_end_def)

lemma window_end_plain:
  "CHR ''.'' \<notin> set t \<Longrightarrow> CHR ''?'' \<notin> set t \<Longrightarrow> CHR ''!'' \<notin> set t \<Longrightarrow> 0 \<le> s \<Longrightarrow>
   window_end t cs s = s + cs"
  by (simp add: window_end_def Let_def rfind_absent)

lemma chunk_loop_done:
  "int (length t) \<le> s \<Longrightarrow> chunk_loop t cs ov s acc = Some acc"
  by (subst chunk_loop.simps) simp

lemma chunk_loop_step:
  "s < int (length t) \<Longrightarrow>
   chunk_loop t cs ov s acc =
     chunk_loop t cs ov (window_end t cs s - ov)
       (if strip (slice t s (window_end t cs s)) \<noteq> [] then acc @ [strip (slice t s (window_end t cs s))] else acc)"
  by (subst chunk_loop.simps) (simp add: Let_def)

lemma chunk_loop_returns:
  assumes "0 \<le> ov" "ov + 100 \<le> cs"
  shows "0 \<le> s \<Longrightarrow> \<exists>r. chunk_loop t cs ov s acc = Some r"
proof (induction "nat (int (length t) - s)" arbitrary: s acc rule: less_induct)
  case less
  show ?case
  proof (cases "s < int (length t)")
    case False
    then show ?thesis by (simp add: chunk_loop_done)
  next
    case True
    let ?e = "window_end t cs s"
    from window_end_lower [of s cs t] less.prems assms have e: "s + cs - 99 \<le> ?e" by simp
    with assms have adv: "s < ?e - ov" by simp
    then have "nat (int (length t) - (?e - ov)) < nat (int (length t) - s)" using True by simp
    moreover have "0 \<le> ?e - ov" using adv less.prems by simp
    ultimately obtain r where
      "chunk_loop t cs ov (?e - ov)
        (if strip (slice t s ?e) \<noteq> [] then acc @ [strip (slice t s ?e)] else acc) = Some r"
      using less.hyps by blast
    then show ?thesis using True by (simp add: chunk_loop_step)
  qed
qed

lemma chunk_loop_stuck:
  assumes r: "chunk_loop t cs ov s acc = Some y"
    and s: "s < int (length t)" and e: "window_end t cs s - ov = s"
  shows False
proof -
  let ?P = "\<lambda>t' cs' ov' s' (acc' :: string list) (y' :: string list).
              \<not> (t' = t \<and> cs' = cs \<and> ov' = ov \<and> s' = s)"
  have "?P t cs ov s acc y"
  proof (rule chunk_loop.raw_induct [where P = ?P, OF _ r])
    fix f t' cs' ov' s' and acc' y' :: "string list"
    assume IH: "\<And>t' cs' ov' s' acc' y'. f t' cs' ov' s' acc' = Some y' \<Longrightarrow> ?P t' cs' ov' s' acc' y'"
      and body: "(if s' < int (length t') then
                   (let end1 = window_end t' cs' s';
                        chunk = strip (slice t' s' end1);
                        chunks1 = (if chunk \<noteq> [] then acc' @ [chunk] else acc')
                    in f t' cs' ov' (end1 - ov') chunks1)
                  else Some acc') = Some y'"
    show "?P t' cs' ov' s' acc' y'"
    proof
      assume eq: "t' = t \<and> cs' = cs \<and> ov' = ov \<and> s' = s"
      with body s e obtain acc'' where "f t cs ov s acc'' = Some y'"
        by (simp add: Let_def)
      from IH [OF this] show False by simp
    qed
  qed
  then show False by simp
qed

lemma strip_fixed_iff: "strip x = x \<longleftrightarrow> x = [] \<or> (\<not> is_space (hd x) \<and> \<not> is_space (last x))"
proof (cases "x = [] \<or> \<not> is_space (hd x)")
  case True
  then have "dropWhile is_space x = x" by (simp add: dropWhile_eq_self_iff)
  then have "strip x = x \<longleftrightarrow> dropWhile is_space (rev x) = rev x"
    by (simp add: strip_def rev_swap)
  also have "\<dots> \<longleftrightarrow> x = [] \<or> \<not> is_space (last x)"
    by (simp add: dropWhile_eq_self_iff hd_rev)
  finally show ?thesis using True by auto
next
  case False
  then have x: "x \<noteq> []" "is_space (hd x)" by auto
  have "length (strip x) \<le> length (dropWhile is_space x)"
    using length_dropWhile_le [of is_space "rev (dropWhile is_space x)"] by (simp add: strip_def)
  also have "\<dots> < length x" using x by (cases x) (auto intro: le_imp_less_Suc length_dropWhile_le)
  finally have "strip x \<noteq> x" by auto
  with x show ?thesis by simp
qed

lemma strip_idem: "strip (strip x) = strip x"
proof -
  let ?u = "dropWhile is_space x"
  let ?v = "dropWhile is_space (rev ?u)"
  have v: "strip x = rev ?v" by (simp add: strip_def)
  show ?thesis
  proof (cases "?v = []")
    case True
    then have e: "strip x = []" by (simp add: v)
    have "strip [] = []" by (simp add: strip_def)
    then show ?thesis unfolding e .
  next
    case False
    then have l: "\<not> is_space (hd ?v)" using hd_dropWhile by blast
    have "?u \<noteq> []"
    proof
      assume a: "?u = []"
      have "?v = []" unfolding a by simp
      with False show False by contradiction
    qed
    then have hu: "\<not> is_space (hd ?u)" using hd_dropWhile by blast
    obtain ws where ws: "rev ?u = ws @ ?v" using takeWhile_dropWhile_id [of is_space "rev ?u"] by metis
    then have "?u = rev ?v @ rev ws" by (metis rev_append rev_rev_ident)
    then have "hd ?u = hd (rev ?v)" using False by (metis hd_append2 rev_is_Nil_conv)
    with hu l False show ?thesis
      unfolding v strip_fixed_iff by (simp add: last_rev)
  qed
qed

lemma chunk_loop_trimmed:
  assumes r: "chunk_loop t cs ov s acc = Some y"
    and acc: "\<forall>c\<in>set acc. strip c = c \<and> c \<noteq> []"
  shows "\<forall>c\<in>set y. strip c = c \<and> c \<noteq> []"
proof -
  let ?ok = "\<lambda>cs :: string list. \<forall>c\<in>set cs. strip c = c \<and> c \<noteq> []"
  let ?P = "\<lambda>(t' :: string) (cs' :: int) (ov' :: int) (s' :: int) acc' y'. ?ok acc' \<longrightarrow> ?ok y'"
  have "?P t cs ov s acc y"
  proof (rule chunk_loop.raw_induct [where P = ?P, OF _ r])
    fix f t' cs' ov' s' and acc' y' :: "string list"
    assume IH: "\<And>t' cs' ov' s' acc' y'. f t' cs' ov' s' acc' = Some y' \<Longrightarrow> ?P t' cs' ov' s' acc' y'"
      and body: "(if s' < int (length t') then
                   (let end1 = window_end t' cs' s';
                        chunk = strip (slice t' s' end1);
                        chunks1 = (if chunk \<noteq> [] then acc' @ [chunk] else acc')
                    in f t' cs' ov' (end1 - ov') chunks1)
                  else Some acc') = Some y'"
    show "?P t' cs' ov' s' acc' y'"
    proof
      assume ok: "?ok acc'"
      show "?ok y'"
      proof (cases "s' < int (length t')")
        case False
        with body ok show ?thesis by simp
      next
        case True
        let ?c = "strip (slice t' s' (window_end t' cs' s'))"
        let ?acc = "if ?c \<noteq> [] then acc' @ [?c] else acc'"
        from True body have "f t' cs' ov' (window_end t' cs' s' - ov') ?acc = Some y'"
          by (simp add: Let_def)
        from IH [OF this] have "?ok ?acc \<longrightarrow> ?ok y'" .
        moreover have "?ok ?acc" using ok by (simp add: strip_idem)
        ultimately show ?thesis by blast
      qed
    qed
  qed
  with acc show ?thesis by blast
qed

lemma chunk_loop_advance:
  assumes "s < int (length t)" "window_end t cs s = e" "e - ov = s'"
  shows "chunk_loop t cs ov s (filter (\<lambda>c. c \<noteq> []) xs) =
         chunk_loop t cs ov s' (filter (\<lambda>c. c \<noteq> []) (xs @ [strip (slice t s e)]))"
  using assms by (subst chunk_loop_step) auto

lemma windows_of_2500_chars:
  assumes len: "length t = 2500"
  defines "e0 \<equiv> window_end t 1000 0"
  defines "e1 \<equiv> window_end t 1000 (e0 - 200)"
  defines "e2 \<equiv> window_end t 1000 (e1 - 200)"
  shows "chunk_text t 1000 200 =
           Some (filter (\<lambda>c. c \<noteq> [])
             [strip (slice t 0 e0), strip (slice t (e0 - 200) e1), strip (slice t (e1 - 200) e2),
              strip (slice t (e2 - 200) (e2 + 800))])"
    and "901 \<le> e0 \<and> e0 \<le> 1000"
    and "e0 + 701 \<le> e1 \<and> e1 \<le> e0 + 800"
    and "e1 + 701 \<le> e2 \<and> e2 \<le> e1 + 800"
proof -
  let ?keep = "filter (\<lambda>c :: string. c \<noteq> [])"
  show b0: "901 \<le> e0 \<and> e0 \<le> 1000"
    using window_end_bounds [of 0 1000 t] by (simp add: e0_def)
  show b1: "e0 + 701 \<le> e1 \<and> e1 \<le> e0 + 800"
    using window_end_bounds [of "e0 - 200" 1000 t] b0 by (simp add: e1_def)
  show b2: "e1 + 701 \<le> e2 \<and> e2 \<le> e1 + 800"
    using window_end_bounds [of "e1 - 200" 1000 t] b0 b1 by (simp add: e2_def)
  have e3: "window_end t 1000 (e2 - 200) = e2 + 800"
    using window_end_past [of t "e2 - 200" 1000] b0 b1 b2 len by simp
  have "chunk_loop t 1000 200 0 (?keep []) =
          chunk_loop t 1000 200 (e0 - 200) (?keep ([] @ [strip (slice t 0 e0)]))"
    by (rule chunk_loop_advance) (use len in \<open>simp_all add: e0_def\<close>)
  also have "\<dots> = chunk_loop t 1000 200 (e1 - 200)
                     (?keep (([] @ [strip (slice t 0 e0)]) @ [strip (slice t (e0 - 200) e1)]))"
    by (rule chunk_loop_advance) (use len b0 in \<open>simp_all add: e1_def\<close>)
  also have "\<dots> = chunk_loop t 1000 200 (e2 - 200)
                     (?keep ((([] @ [strip (slice t 0 e0)]) @ [strip (slice t (e0 - 200) e1)])
                        @ [strip (slice t (e1 - 200) e2)]))"
    by (rule chunk_loop_advance) (use len b0 b1 in \<open>simp_all add: e2_def\<close>)
  also have "\<dots> = chunk_loop t 1000 200 (e2 + 600)
                     (?keep (((([] @ [strip (slice t 0 e0)]) @ [strip (slice t (e0 - 200) e1)])
                        @ [strip (slice t (e1 - 200) e2)]) @ [strip (slice t (e2 - 200) (e2 + 800))]))"
    by (rule chunk_loop_advance) (use len b0 b1 b2 e3 in simp_all)
  also have "\<dots> = Some (?keep (((([] @ [strip (slice t 0 e0)]) @ [strip (slice t (e0 - 200) e1)])
                        @ [strip (slice t (e1 - 200) e2)]) @ [strip (slice t (e2 - 200) (e2 + 800))]))"
    by (rule chunk_loop_done) (use len b0 b1 b2 in simp)
  finally have "chunk_loop t 1000 200 0 [] =
      Some (?keep [strip (slice t 0 e0), strip (slice t (e0 - 200) e1), strip (slice t (e1 - 200) e2),
              strip (slice t (e2 - 200) (e2 + 800))])"
    by (simp del: filter.simps)
  then show "chunk_text t 1000 200 =
           Some (?keep
             [strip (slice t 0 e0), strip (slice t (e0 - 200) e1), strip (slice t (e1 - 200) e2),
              strip (slice t (e2 - 200) (e2 + 800))])"
    using len by (simp add: chunk_text_def del: filter.simps)
qed

lemma slice_nonempty: "0 \<le> i \<Longrightarrow> i < j \<Longrightarrow> i < int (length s) \<Longrightarrow> slice s i j \<noteq> []"
  by (auto simp: slice_def adjust_index_def Let_def)

lemma set_slice: "set (slice s i j) \<subseteq> set s"
  by (auto simp: slice_def Let_def dest: in_set_takeD in_set_dropD)

lemma strip_no_space: "\<forall>c\<in>set s. \<not> is_space c \<Longrightarrow> strip s = s"
  by (cases "s = []") (simp_all add: strip_fixed_iff)

section \<open>Claims about the chunker\<close>

lemma chunk_text_returns:
  assumes "0 \<le> overlap" "overlap + 100 \<le> chunk_size"
  shows "\<exists>r. chunk_text text chunk_size overlap = Some r"
  using chunk_loop_returns [OF assms, of 0 "text" "[]"] by (simp add: chunk_text_def)

lemma window_end_hello_0: "window_end ''Hello world. This is a longer sentence'' 20 0 = 12"
  by code_simp

lemma window_end_hello_7: "window_end ''Hello world. This is a longer sentence'' 20 7 = 12"
  by code_simp

lemma first_chunk_hello:
  "strip (slice ''Hello world. This is a longer sentence'' 0 12) = ''Hello world.''"
  by code_simp

text \<open>
  Claim C1: for every text, every \<open>chunk_size > 0\<close> and every overlap with
  \<open>0 \<le> overlap < chunk_size\<close>, \<open>chunk_text\<close> terminates and returns a sequence of strings.
  The code does not: with \<open>chunk_size = 20\<close> and \<open>overlap = 5\<close> the 38-character text below
  has its first window cut back to the full stop at index 11, the second window starts at
  \<open>12 - 5 = 7\<close> and is cut back to the same full stop, so \<open>start\<close> is 7 again: every
  further iteration appends one more chunk and leaves \<open>start\<close> at 7, and the loop never
  ends. (Lemma \<open>chunk_text_returns\<close> gives termination when
  \<open>overlap + 100 \<le> chunk_size\<close>, which covers the only call in the repository.)
\<close>

theorem chunk_text_diverges:
  "chunk_text ''Hello world. This is a longer sentence'' 20 5 = None"
proof -
  let ?t = "''Hello world. This is a longer sentence''"
  have "chunk_loop ?t 20 5 7 [''Hello world.''] = None"
  proof (cases "chunk_loop ?t 20 5 7 [''Hello world.'']")
    case (Some y)
    from chunk_loop_stuck [OF Some] window_end_hello_7 show ?thesis by simp
  qed simp
  moreover have "chunk_loop ?t 20 5 0 [] = chunk_loop ?t 20 5 7 [''Hello world.'']"
    by (subst chunk_loop_step) (simp_all add: window_end_hello_0 first_chunk_hello)
  ultimately show ?thesis by (simp add: chunk_text_def)
qed

lemma is_space_a: "\<not> is_space (CHR ''a'')"
  by (simp add: is_space_def)

lemma slice_replicate:
  "0 \<le> i \<Longrightarrow> i \<le> j \<Longrightarrow>
   slice (replicate n x) i j = replicate (min n (nat j) - min n (nat i)) x"
  by (simp add: slice_def adjust_index_def Let_def min_def) linarith

lemma strip_replicate_a: "strip (replicate n (CHR ''a'')) = replicate n (CHR ''a'')"
  by (rule strip_no_space) (simp add: is_space_a)

lemma rfind_absent_range:
  assumes "\<And>k. adjust_index (length s) i \<le> k \<Longrightarrow> k < adjust_index (length s) j \<Longrightarrow> s ! k \<noteq> c"
  shows "rfind s c i j = - 1"
proof -
  have "filter (\<lambda>k. s ! k = c) (rev [adjust_index (length s) i..<adjust_index (length s) j]) = []"
    using assms by (intro filter_False) auto
  then show ?thesis by (simp add: rfind_def)
qed

lemma strip_take:
  assumes "x \<noteq> []" "\<not> is_space (hd x)"
  shows "\<exists>n>0. strip x = take n x"
proof -
  have d: "dropWhile is_space x = x" using assms by (simp add: dropWhile_eq_self_iff)
  let ?k = "length (takeWhile is_space (rev x))"
  have "strip x = rev (drop ?k (rev x))"
    unfolding strip_def d by (subst dropWhile_eq_drop) simp
  then have s: "strip x = take (length x - ?k) x" by (simp add: rev_drop)
  have "strip x \<noteq> []"
  proof
    assume "strip x = []"
    then have "\<forall>c\<in>set x. is_space c" by (simp add: strip_def d)
    with assms show False by (cases x) auto
  qed
  with s have "0 < length x - ?k" by (cases "length x - ?k") auto
  with s show ?thesis by blast
qed

lemma slice_take_drop:
  "0 \<le> i \<Longrightarrow> i \<le> j \<Longrightarrow> j \<le> int (length s) \<Longrightarrow>
   slice s i j = take (nat j - nat i) (drop (nat i) s)"
  by (auto simp: slice_def adjust_index_def Let_def)

lemma is_space_blank: "is_space (CHR '' '')"
  by (simp add: is_space_def)

lemma strip_letters_end:
  "strip (xs @ [CHR ''a'']) = dropWhile is_space (xs @ [CHR ''a''])"
proof -
  have "dropWhile is_space (xs @ [CHR ''a'']) = dropWhile is_space xs @ [CHR ''a'']"
    by (simp add: dropWhile_append is_space_a)
  then show ?thesis by (simp add: strip_def is_space_a)
qed

text \<open>
  Claim C2 (counterexample): the 2500-character text \<open>aaa\<dots>a\<close> has no sentence terminator
  and no whitespace, and \<open>chunk_text(text, 1000, 200)\<close> returns four chunks, not three: the
  windows start at 0, 800, 1600 and 2400, and the loop only stops once \<open>start\<close> has
  reached the end of the text. The chunks are stripped and blank ones are dropped, so
  with a space at offset 800 the second chunk is \<open>text[801:1800]\<close>, and with a blank
  first window the second chunk returned comes from the third window.
\<close>

theorem four_chunks_of_2500_chars:
  "length (replicate 2500 (CHR ''a'')) = 2500 \<and>
   chunk_text (replicate 2500 (CHR ''a'')) 1000 200 =
     Some [replicate 1000 (CHR ''a''), replicate 1000 (CHR ''a''),
           replicate 900 (CHR ''a''), replicate 100 (CHR ''a'')] \<and>
   map_option length (chunk_text (replicate 2500 (CHR ''a'')) 1000 200) \<noteq> Some 3 \<and>
   length (replicate 800 (CHR ''a'') @ '' '' @ replicate 1699 (CHR ''a'')) = 2500 \<and>
   (replicate 800 (CHR ''a'') @ '' '' @ replicate 1699 (CHR ''a'')) ! 800 = CHR '' '' \<and>
   chunk_text (replicate 800 (CHR ''a'') @ '' '' @ replicate 1699 (CHR ''a'')) 1000 200 =
     Some [replicate 800 (CHR ''a'') @ '' '' @ replicate 199 (CHR ''a''),
           replicate 999 (CHR ''a''), replicate 900 (CHR ''a''), replicate 100 (CHR ''a'')] \<and>
   length (replicate 1000 (CHR '' '') @ replicate 1500 (CHR ''a'')) = 2500 \<and>
   chunk_text (replicate 1000 (CHR '' '') @ replicate 1500 (CHR ''a'')) 1000 200 =
     Some [replicate 800 (CHR ''a''), replicate 900 (CHR ''a''), replicate 100 (CHR ''a'')]"
proof -
  let ?t = "replicate 2500 (CHR ''a'')"
  define u where "u = replicate 800 (CHR ''a'') @ '' '' @ replicate 1699 (CHR ''a'')"
  define v where "v = replicate 1000 (CHR '' '') @ replicate 1500 (CHR ''a'')"
  have len_u: "length u = 2500" and len_v: "length v = 2500"
    by (simp_all add: u_def v_def)
  have plain_t: "window_end ?t 1000 s = s + 1000" if "0 \<le> s" for s
    using that by (intro window_end_plain) simp_all
  have plain_u: "window_end u 1000 s = s + 1000" if "0 \<le> s" for s
    using that by (intro window_end_plain) (simp_all add: u_def)
  have plain_v: "window_end v 1000 s = s + 1000" if "0 \<le> s" for s
    using that by (intro window_end_plain) (simp_all add: v_def)
  have t: "chunk_text ?t 1000 200 =
     Some [replicate 1000 (CHR ''a''), replicate 1000 (CHR ''a''),
           replicate 900 (CHR ''a''), replicate 100 (CHR ''a'')]"
    by (simp add: windows_of_2500_chars(1) plain_t slice_replicate strip_replicate_a)
  have u1: "strip (slice u 0 1000) = replicate 800 (CHR ''a'') @ '' '' @ replicate 199 (CHR ''a'')"
  proof -
    have "slice u 0 1000 = replicate 800 (CHR ''a'') @ '' '' @ replicate 199 (CHR ''a'')"
      by (simp add: slice_take_drop u_def)
    moreover have "strip (replicate 800 (CHR ''a'') @ '' '' @ replicate 199 (CHR ''a'')) =
                     replicate 800 (CHR ''a'') @ '' '' @ replicate 199 (CHR ''a'')"
      by (simp add: strip_fixed_iff is_space_a hd_append)
    ultimately show ?thesis by simp
  qed
  have u2: "strip (slice u 800 1800) = replicate 999 (CHR ''a'')"
  proof -
    have "slice u 800 1800 = '' '' @ replicate 999 (CHR ''a'')"
      by (simp add: slice_take_drop u_def)
    moreover have "strip ('' '' @ replicate 999 (CHR ''a'')) = replicate 999 (CHR ''a'')"
      by (simp add: strip_def is_space_a is_space_blank)
    ultimately show ?thesis by simp
  qed
  have u3: "strip (slice u 1600 2600) = replicate 900 (CHR ''a'')"
    by (simp add: slice_def adjust_index_def strip_replicate_a u_def)
  have u4: "strip (slice u 2400 3400) = replicate 100 (CHR ''a'')"
    by (simp add: slice_def adjust_index_def strip_replicate_a u_def)
  have u: "chunk_text u 1000 200 =
     Some [replicate 800 (CHR ''a'') @ '' '' @ replicate 199 (CHR ''a''),
           replicate 999 (CHR ''a''), replicate 900 (CHR ''a''), replicate 100 (CHR ''a'')]"
    by (simp add: windows_of_2500_chars(1) [OF len_u] plain_u u1 u2 u3 u4)
  have v1: "strip (slice v 0 1000) = []"
    by (simp add: slice_take_drop strip_def is_space_blank v_def)
  have v2: "strip (slice v 800 1800) = replicate 800 (CHR ''a'')"
  proof -
    have "slice v 800 1800 = replicate 200 (CHR '' '') @ replicate 800 (CHR ''a'')"
      by (simp add: slice_take_drop v_def)
    moreover have "strip (replicate 200 (CHR '' '') @ replicate 800 (CHR ''a'')) =
                     replicate 800 (CHR ''a'')"
      by (simp add: strip_def is_space_a is_space_blank dropWhile_append)
    ultimately show ?thesis by simp
  qed
  have v3: "strip (slice v 1600 2600) = replicate 900 (CHR ''a'')"
    by (simp add: slice_def adjust_index_def strip_replicate_a v_def)
  have v4: "strip (slice v 2400 3400) = replicate 100 (CHR ''a'')"
    by (simp add: slice_def adjust_index_def strip_replicate_a v_def)
  have v: "chunk_text v 1000 200 =
     Some [replicate 800 (CHR ''a''), replicate 900 (CHR ''a''), replicate 100 (CHR ''a'')]"
    by (simp add: windows_of_2500_chars(1) [OF len_v] plain_v v1 v2 v3 v4)
  have "u ! 800 = CHR '' ''" by (simp add: nth_append u_def)
  with t u v len_u len_v show ?thesis unfolding u_def v_def by simp
qed

text \<open>
  Claim C2 (amended): for every 2500-character text, \<open>chunk_text(text, 1000, 200)\<close>
  returns; it cuts exactly four windows and returns their non-empty strips, so at most
  four chunks, and exactly four (not three) when the text contains no whitespace. When no
  sentence-boundary adjustment moves the end of the first window (its end is the nominal
  1000), the second window begins at offset \<open>chunk_size - overlap = 800\<close>; the second
  chunk returned begins at offset 800 of the source provided the first window is not
  blank and \<open>text[800]\<close> is not whitespace (chunks are stripped, blank ones dropped).
\<close>

theorem chunk_text_2500:
  assumes len: "length text = 2500"
  shows "\<exists>r. chunk_text text 1000 200 = Some r \<and>
           (let e0 = window_end text 1000 0;
                e1 = window_end text 1000 (e0 - 200);
                e2 = window_end text 1000 (e1 - 200)
            in r = filter (\<lambda>c. c \<noteq> [])
                     [strip (slice text 0 e0), strip (slice text (e0 - 200) e1),
                      strip (slice text (e1 - 200) e2),
                      strip (slice text (e2 - 200) (e2 + 800))]) \<and>
           length r \<le> 4 \<and>
           ((\<forall>c\<in>set text. \<not> is_space c) \<longrightarrow> length r = 4) \<and>
           (window_end text 1000 0 = 1000 \<longrightarrow>
              (let e1 = window_end text 1000 800;
                   e2 = window_end text 1000 (e1 - 200)
               in r = filter (\<lambda>c. c \<noteq> [])
                        [strip (slice text 0 1000), strip (slice text 800 e1),
                         strip (slice text (e1 - 200) e2),
                         strip (slice text (e2 - 200) (e2 + 800))]) \<and>
              (strip (slice text 0 1000) \<noteq> [] \<and> \<not> is_space (text ! 800) \<longrightarrow>
                 (\<exists>n>0. r ! 1 = take n (drop 800 text))))"
proof -
  define e0 where "e0 = window_end text 1000 0"
  define e1 where "e1 = window_end text 1000 (e0 - 200)"
  define e2 where "e2 = window_end text 1000 (e1 - 200)"
  let ?ws = "[strip (slice text 0 e0), strip (slice text (e0 - 200) e1),
              strip (slice text (e1 - 200) e2), strip (slice text (e2 - 200) (e2 + 800))]"
  let ?r = "filter (\<lambda>c. c \<noteq> []) ?ws"
  note w = windows_of_2500_chars [OF len, folded e0_def e1_def e2_def]
  have r: "chunk_text text 1000 200 = Some ?r" by (rule w(1))
  have "length ?r \<le> length ?ws" by (rule length_filter_le)
  then have le4: "length ?r \<le> 4" by simp
  have four: "length ?r = 4" if ns: "\<forall>c\<in>set text. \<not> is_space c"
  proof -
    have st: "strip (slice text i j) = slice text i j" for i j
      using ns set_slice [of "text" i j] by (intro strip_no_space) blast
    have "slice text 0 e0 \<noteq> []" "slice text (e0 - 200) e1 \<noteq> []"
         "slice text (e1 - 200) e2 \<noteq> []" "slice text (e2 - 200) (e2 + 800) \<noteq> []"
      using w(2,3,4) len by (simp_all add: slice_nonempty)
    then show ?thesis by (simp add: st)
  qed
  have second: "\<exists>n>0. ?r ! 1 = take n (drop 800 text)"
    if e: "e0 = 1000" and first: "strip (slice text 0 1000) \<noteq> []"
      and ns: "\<not> is_space (text ! 800)"
  proof -
    from w(3) e have b: "1701 \<le> e1" "e1 \<le> 1800" by simp_all
    let ?x = "slice text 800 e1"
    have x: "?x = take (nat e1 - 800) (drop 800 text)"
      using b len by (simp add: slice_take_drop)
    have pos: "0 < nat e1 - 800" using b by simp
    have "hd ?x = text ! 800"
      unfolding x using pos len by (simp add: hd_drop_conv_nth)
    moreover have "?x \<noteq> []" unfolding x using pos len by simp
    ultimately obtain n where n: "0 < n" "strip ?x = take n ?x"
      using strip_take [of ?x] ns by auto
    then have sx: "strip ?x = take (min n (nat e1 - 800)) (drop 800 text)"
      by (simp add: x)
    have "strip ?x \<noteq> []" using n pos len by (simp add: x)
    with first e have "?r ! 1 = strip ?x" by simp
    with sx n pos show ?thesis by (intro exI [of _ "min n (nat e1 - 800)"]) simp
  qed
  show ?thesis
  proof (intro exI [of _ ?r] conjI impI)
    show "chunk_text text 1000 200 = Some ?r" by (rule r)
    show "length ?r \<le> 4" by (rule le4)
    show "let e0 = window_end text 1000 0;
              e1 = window_end text 1000 (e0 - 200);
              e2 = window_end text 1000 (e1 - 200)
          in ?r = filter (\<lambda>c. c \<noteq> [])
                     [strip (slice text 0 e0), strip (slice text (e0 - 200) e1),
                      strip (slice text (e1 - 200) e2),
                      strip (slice text (e2 - 200) (e2 + 800))]"
      by (simp only: Let_def e0_def e1_def e2_def)
  next
    assume "\<forall>c\<in>set text. \<not> is_space c"
    then show "length ?r = 4" by (rule four)
  next
    assume u: "window_end text 1000 0 = 1000"
    then have e: "e0 = 1000" by (simp add: e0_def)
    then have e1': "e1 = window_end text 1000 800" by (simp add: e1_def)
    show "let e1 = window_end text 1000 800;
              e2 = window_end text 1000 (e1 - 200)
          in ?r = filter (\<lambda>c. c \<noteq> [])
                        [strip (slice text 0 1000), strip (slice text 800 e1),
                         strip (slice text (e1 - 200) e2),
                         strip (slice text (e2 - 200) (e2 + 800))]"
      unfolding Let_def e1' [symmetric] e2_def [symmetric] using e by simp
  next
    assume u: "window_end text 1000 0 = 1000"
      and "strip (slice text 0 1000) \<noteq> [] \<and> \<not> is_space (text ! 800)"
    then show "\<exists>n>0. ?r ! 1 = take n (drop 800 text)"
      using second by (simp add: e0_def)
  qed
qed

lemma window_end_unadjusted:
  assumes "0 \<le> s" "100 \<le> cs"
    and "\<And>k. nat (s + cs - 100) \<le> k \<Longrightarrow> k < nat (s + cs) \<Longrightarrow> k < length t \<Longrightarrow>
           t ! k \<noteq> CHR ''.'' \<and> t ! k \<noteq> CHR ''?'' \<and> t ! k \<noteq> CHR ''!''"
  shows "window_end t cs s = s + cs"
proof -
  have "rfind t c (s + cs - 100) (s + cs) = - 1"
    if "c = CHR ''.'' \<or> c = CHR ''?'' \<or> c = CHR ''!''" for c
  proof (rule rfind_absent_range)
    fix k
    assume "adjust_index (length t) (s + cs - 100) \<le> k"
      and "k < adjust_index (length t) (s + cs)"
    then have "nat (s + cs - 100) \<le> k" "k < nat (s + cs)" "k < length t"
      using assms(1,2) by (auto simp: adjust_index_def split: if_splits)
    from assms(3) [OF this] that show "t ! k \<noteq> c" by auto
  qed
  then show ?thesis using assms(1) by (simp add: window_end_def Let_def)
qed

theorem chunk_text_2500_witness:
  "length (''.'' @ replicate 2499 (CHR ''a'')) = 2500 \<and>
   \<not> (\<exists>c\<in>set (''.'' @ replicate 2499 (CHR ''a'')). is_space c) \<and>
   window_end (''.'' @ replicate 2499 (CHR ''a'')) 1000 0 = 1000 \<and>
   strip (slice (''.'' @ replicate 2499 (CHR ''a'')) 0 1000) \<noteq> [] \<and>
   \<not> is_space ((''.'' @ replicate 2499 (CHR ''a'')) ! 800) \<and>
   (\<exists>r. chunk_text (''.'' @ replicate 2499 (CHR ''a'')) 1000 200 = Some r \<and> length r = 4 \<and>
        r = [''.'' @ replicate 999 (CHR ''a''), replicate 1000 (CHR ''a''),
             replicate 900 (CHR ''a''), replicate 100 (CHR ''a'')] \<and>
        (\<exists>n>0. r ! 1 = take n (drop 800 (''.'' @ replicate 2499 (CHR ''a'')))))"
proof -
  define t where "t = ''.'' @ replicate 2499 (CHR ''a'')"
  have len: "length t = 2500" by (simp add: t_def)
  have letters: "t ! k = CHR ''a''" if "0 < k" "k < 2500" for k
    using that by (simp add: t_def nth_Cons')
  have nosp: "\<forall>c\<in>set t. \<not> is_space c"
    by (auto simp: t_def is_space_a is_space_def)
  have e0: "window_end t 1000 0 = 1000"
    using window_end_unadjusted [of 0 1000 t] letters by (simp add: len)
  have e1: "window_end t 1000 800 = 1800"
    using window_end_unadjusted [of 800 1000 t] letters by (simp add: len)
  have e2: "window_end t 1000 1600 = 2600"
    by (simp add: window_end_past len)
  have s1: "strip (slice t 0 1000) = ''.'' @ replicate 999 (CHR ''a'')"
  proof -
    have "slice t 0 1000 = ''.'' @ replicate 999 (CHR ''a'')"
      by (simp add: slice_take_drop t_def)
    moreover have "strip (''.'' @ replicate 999 (CHR ''a'')) = ''.'' @ replicate 999 (CHR ''a'')"
      by (simp add: strip_fixed_iff is_space_a is_space_def)
    ultimately show ?thesis by simp
  qed
  have s2: "strip (slice t 800 1800) = replicate 1000 (CHR ''a'')"
    by (simp add: slice_take_drop t_def strip_replicate_a)
  have s3: "strip (slice t 1600 2600) = replicate 900 (CHR ''a'')"
    by (simp add: slice_def adjust_index_def t_def strip_replicate_a)
  have s4: "strip (slice t 2400 3400) = replicate 100 (CHR ''a'')"
    by (simp add: slice_def adjust_index_def t_def strip_replicate_a)
  have first: "strip (slice t 0 1000) \<noteq> []" by (simp add: s1)
  have c800: "\<not> is_space (t ! 800)" by (simp add: letters is_space_a)
  from chunk_text_2500 [OF len] obtain r where
    r: "chunk_text t 1000 200 = Some r" and
    four: "(\<forall>c\<in>set t. \<not> is_space c) \<longrightarrow> length r = 4" and
    un: "window_end t 1000 0 = 1000 \<longrightarrow>
           (let e1 = window_end t 1000 800;
                e2 = window_end t 1000 (e1 - 200)
            in r = filter (\<lambda>c. c \<noteq> [])
                     [strip (slice t 0 1000), strip (slice t 800 e1),
                      strip (slice t (e1 - 200) e2),
                      strip (slice t (e2 - 200) (e2 + 800))]) \<and>
           (strip (slice t 0 1000) \<noteq> [] \<and> \<not> is_space (t ! 800) \<longrightarrow>
              (\<exists>n>0. r ! 1 = take n (drop 800 t)))"
    by blast
  from four nosp have l4: "length r = 4" by blast
  from un e0 have "r = filter (\<lambda>c. c \<noteq> [])
                     [strip (slice t 0 1000), strip (slice t 800 1800),
                      strip (slice t 1600 2600), strip (slice t 2400 3400)]"
    by (simp add: Let_def e1 e2)
  then have rv: "r = [''.'' @ replicate 999 (CHR ''a''), replicate 1000 (CHR ''a''),
             replicate 900 (CHR ''a''), replicate 100 (CHR ''a'')]"
    by (simp add: s1 s2 s3 s4)
  from un e0 first c800 have pre: "\<exists>n>0. r ! 1 = take n (drop 800 t)" by blast
  have "\<exists>r. chunk_text t 1000 200 = Some r \<and> length r = 4 \<and>
        r = [''.'' @ replicate 999 (CHR ''a''), replicate 1000 (CHR ''a''),
             replicate 900 (CHR ''a''), replicate 100 (CHR ''a'')] \<and>
        (\<exists>n>0. r ! 1 = take n (drop 800 t))"
    using r l4 rv pre by blast
  moreover have "\<not> (\<exists>c\<in>set t. is_space c)" using nosp by blast
  ultimately show ?thesis using len e0 first c800 unfolding t_def by blast
qed

text \<open>
  Claim C7 (counterexample): a text no longer than \<open>chunk_size\<close> is returned as it is,
  with its edge whitespace, and the empty text is returned as one empty chunk.
\<close>

theorem short_text_untrimmed:
  "chunk_text '' a '' 10 2 = Some ['' a ''] \<and> strip '' a '' \<noteq> '' a '' \<and>
   chunk_text [] 10 2 = Some [[]]"
  by (simp add: chunk_text_def strip_def is_space_def)

text \<open>
  Claim C7 (amended): for every text longer than \<open>chunk_size\<close>, every chunk that
  \<open>chunk_text\<close> returns equals its own strip and is not empty (windows that strip to the
  empty string are dropped); a text with \<open>len(text) \<le> chunk_size\<close> is returned whole,
  untrimmed. With \<open>0 \<le> overlap\<close> and \<open>overlap + 100 \<le> chunk_size\<close> the call returns.
\<close>

theorem chunk_text_chunks_trimmed:
  "(chunk_size < int (length text) \<longrightarrow>
      (\<forall>r. chunk_text text chunk_size overlap = Some r \<longrightarrow>
         (\<forall>c\<in>set r. strip c = c \<and> c \<noteq> []))) \<and>
   (int (length text) \<le> chunk_size \<longrightarrow> chunk_text text chunk_size overlap = Some [text]) \<and>
   (0 \<le> overlap \<and> overlap + 100 \<le> chunk_size \<longrightarrow>
      (\<exists>r. chunk_text text chunk_size overlap = Some r))"
proof (intro conjI impI allI)
  fix r
  assume "chunk_size < int (length text)" and "chunk_text text chunk_size overlap = Some r"
  then have "chunk_loop text chunk_size overlap 0 [] = Some r"
    by (simp add: chunk_text_def)
  from chunk_loop_trimmed [OF this] show "\<forall>c\<in>set r. strip c = c \<and> c \<noteq> []" by simp
next
  assume "int (length text) \<le> chunk_size"
  then show "chunk_text text chunk_size overlap = Some [text]" by (simp add: chunk_text_def)
next
  assume "0 \<le> overlap \<and> overlap + 100 \<le> chunk_size"
  then show "\<exists>r. chunk_text text chunk_size overlap = Some r"
    using chunk_text_returns by blast
qed

lemma chunk_text_two_sentences:
  "chunk_text (replicate 60 (CHR ''a'') @ ''.  '' @ replicate 60 (CHR ''b'')) 100 0 =
     Some [replicate 60 (CHR ''a'') @ ''.'', replicate 60 (CHR ''b'')]"
  by code_simp

theorem chunk_text_chunks_trimmed_witness:
  "100 < int (length (replicate 60 (CHR ''a'') @ ''.  '' @ replicate 60 (CHR ''b''))) \<and>
   (0::int) \<le> 0 \<and> (0::int) + 100 \<le> 100 \<and>
   chunk_text (replicate 60 (CHR ''a'') @ ''.  '' @ replicate 60 (CHR ''b'')) 100 0 =
     Some [replicate 60 (CHR ''a'') @ ''.'', replicate 60 (CHR ''b'')] \<and>
   strip (replicate 60 (CHR ''a'') @ ''.'') = replicate 60 (CHR ''a'') @ ''.'' \<and>
   replicate 60 (CHR ''a'') @ ''.'' \<noteq> [] \<and>
   strip (replicate 60 (CHR ''b'')) = replicate 60 (CHR ''b'') \<and>
   replicate 60 (CHR ''b'') \<noteq> [] \<and>
   int (length ''short'') \<le> 100 \<and> chunk_text ''short'' 100 0 = Some [''short'']"
  using chunk_text_chunks_trimmed [of 100 "replicate 60 (CHR ''a'') @ ''.  '' @ replicate 60 (CHR ''b'')" 0]
        chunk_text_chunks_trimmed [of 100 "''short''" 0]
        chunk_text_two_sentences
  by simp

text \<open>
  Claim C8: for every text \<open>T\<close> with \<open>len(T) \<le> chunk_size\<close>, \<open>chunk_text(T, chunk_size,
  overlap)\<close> returns exactly the one-element sequence \<open>[T]\<close>.
\<close>

theorem chunk_text_short:
  "int (length T) \<le> chunk_size \<Longrightarrow> chunk_text T chunk_size overlap = Some [T]"
  by (simp add: chunk_text_def)

theorem chunk_text_short_witness:
  "int (length ''A short text.'') \<le> 1000 \<and>
   chunk_text ''A short text.'' 1000 200 = Some [''A short text.'']"
  using chunk_text_short [of "''A short text.''" 1000 200] by simp


section \<open>Properties of the ingest and query paths\<close>

lemma chunk_text_default_returns: "chunk_text t 1000 200 \<noteq> None"
  using chunk_text_returns [of 200 1000 t] by auto

lemma process_document_returns: "\<exists>r. process_document env file_path = Some r"
  by (simp add: process_document_def Let_def chunk_text_default_returns
        split: sum.split option.split)

lemma process_document_metadata:
  assumes "process_document env file_path = Some (Inr (chunks, base))"
  shows "base ''total_chunks'' = Some (MInt (int (length chunks)))"
    and "\<exists>fname. base ''filename'' = Some (MStr fname)"
  using assms
  by (auto simp: process_document_def Let_def split: if_splits sum.splits option.splits)

lemma embed_chunks_length: "embed_chunks env chunks = Inr vs \<Longrightarrow> length vs = length chunks"
  by (induction chunks arbitrary: vs) (auto split: sum.splits)

lemma embed_chunks_nth:
  "embed_chunks env chunks = Inr vs \<Longrightarrow> i < length chunks \<Longrightarrow>
   generate_embeddings env (chunks ! i) = Inr (vs ! i)"
proof (induction chunks arbitrary: vs i)
  case Nil
  then show ?case by simp
next
  case (Cons c cs)
  then show ?case by (cases i) (auto split: sum.splits)
qed

lemma embed_chunks_raises:
  "\<exists>c\<in>set chunks. isl (generate_embeddings env c) \<Longrightarrow>
   \<exists>e. embed_chunks env chunks = Inl e \<and> (\<exists>c\<in>set chunks. generate_embeddings env c = Inl e)"
proof (induction chunks)
  case Nil
  then show ?case by simp
next
  case (Cons c cs)
  show ?case
  proof (cases "generate_embeddings env c")
    case (Inl e)
    then show ?thesis by auto
  next
    case (Inr v)
    with Cons.prems have "\<exists>c\<in>set cs. isl (generate_embeddings env c)" by auto
    from Cons.IH [OF this] Inr show ?thesis by (auto split: sum.splits)
  qed
qed

lemma delete_file_fields:
  "upserts (delete_file env p w) = upserts w"
  "uuid_count (delete_file env p w) = uuid_count w"
  "files (delete_file env p w) = (if remove_fails env p then files w else files w - {p})"
  by (auto simp: delete_file_def)

lemma build_points_spec:
  "build_points env w items = ((points, doc_ids), w') \<Longrightarrow>
     length points = length items \<and>
     doc_ids = map (\<lambda>i. uuid4 env (uuid_count w + i)) [0..<length items] \<and>
     map point_id points = doc_ids \<and>
     map point_vector points = map (\<lambda>(text, embedding, meta). embedding) items \<and>
     (\<forall>i<length items. \<forall>k. k \<noteq> ''text'' \<longrightarrow> k \<noteq> ''timestamp'' \<longrightarrow>
        point_payload (points ! i) k = snd (snd (items ! i)) k) \<and>
     (\<forall>i<length items. point_payload (points ! i) ''text'' = Some (MStr (fst (items ! i)))) \<and>
     uuid_count w' = uuid_count w + length items \<and>
     files w' = files w \<and> upserts w' = upserts w"
proof (induction items arbitrary: w points doc_ids w')
  case Nil
  then show ?case by simp
next
  case (Cons item items)
  obtain tx embedding meta where item: "item = (tx, embedding, meta)"
    by (cases item) auto
  let ?w2 = "w\<lparr>uuid_count := Suc (uuid_count w), clock_reads := Suc (clock_reads w)\<rparr>"
  obtain ps ids w3 where rest: "build_points env ?w2 items = ((ps, ids), w3)"
    by (metis surj_pair)
  let ?p = "\<lparr>point_id = uuid4 env (uuid_count w), point_vector = embedding,
             point_payload = (meta(''text'' \<mapsto> MStr tx))
               (''timestamp'' \<mapsto> MStr (utcnow_isoformat env (clock_reads w)))\<rparr>"
  from Cons.prems item rest have res:
    "points = ?p # ps" "doc_ids = uuid4 env (uuid_count w) # ids" "w' = w3"
    by (simp_all add: Let_def)
  note IH = Cons.IH [OF rest]
  have ids: "doc_ids = map (\<lambda>i. uuid4 env (uuid_count w + i)) [0..<length (item # items)]"
  proof -
    have "[0..<length (item # items)] = 0 # map Suc [0..<length items]"
      by (simp add: upt_conv_Cons map_Suc_upt del: upt_Suc)
    then show ?thesis using IH res by (simp add: comp_def del: upt_Suc)
  qed
  have pay: "\<forall>i<length (item # items). \<forall>k. k \<noteq> ''text'' \<longrightarrow> k \<noteq> ''timestamp'' \<longrightarrow>
        point_payload (points ! i) k = snd (snd ((item # items) ! i)) k"
  proof (intro allI impI)
    fix i k assume "i < length (item # items)" "k \<noteq> ''text''" "k \<noteq> ''timestamp''"
    then show "point_payload (points ! i) k = snd (snd ((item # items) ! i)) k"
      using IH res item by (cases i) auto
  qed
  have ptxt: "\<forall>i<length (item # items). point_payload (points ! i) ''text'' = Some (MStr (fst ((item # items) ! i)))"
  proof (intro allI impI)
    fix i assume "i < length (item # items)"
    then show "point_payload (points ! i) ''text'' = Some (MStr (fst ((item # items) ! i)))"
      using IH res item by (cases i) auto
  qed
  from IH res item ids pay ptxt show ?case by simp
qed

lemma add_documents_spec:
  assumes "add_documents env w texts embeddings metadata = (r, w')"
    and "length embeddings = length texts" "length metadata = length texts"
  shows "\<exists>batch. upserts w' = upserts w @ [batch] \<and>
           length batch = length texts \<and>
           map point_vector batch = embeddings \<and>
           map point_id batch = map (\<lambda>i. uuid4 env (uuid_count w + i)) [0..<length texts] \<and>
           (\<forall>i<length texts. \<forall>k. k \<noteq> ''text'' \<longrightarrow> k \<noteq> ''timestamp'' \<longrightarrow>
              point_payload (batch ! i) k = (metadata ! i) k) \<and>
           (\<forall>i<length texts. point_payload (batch ! i) ''text'' = Some (MStr (texts ! i))) \<and>
           (\<forall>ids. r = Inr ids \<longrightarrow> ids = map point_id batch) \<and>
           files w' = files w"
proof -
  let ?items = "zip texts (zip embeddings metadata)"
  obtain ps ids w1 where b: "build_points env w ?items = ((ps, ids), w1)"
    by (metis surj_pair)
  note s = build_points_spec [OF b]
  have len: "length ?items = length texts" using assms(2,3) by simp
  have vec: "map (\<lambda>(text, embedding, meta). embedding) ?items = embeddings"
  proof -
    have "map (\<lambda>(text, embedding, meta). embedding) ?items = map fst (map snd ?items)"
      by (simp add: case_prod_unfold comp_def)
    also have "\<dots> = map fst (zip embeddings metadata)"
      using assms(2,3) by (simp only: map_snd_zip length_zip min.idem)
    also have "\<dots> = embeddings" using assms(2,3) by simp
    finally show ?thesis .
  qed
  from assms(1) b have w': "w' = w1\<lparr>upserts := upserts w1 @ [ps]\<rparr>"
    and r: "r = (case client_upsert env ps of Some e \<Rightarrow> Inl e | None \<Rightarrow> Inr ids)"
    by (auto simp: add_documents_def Let_def split: option.splits)
  have "upserts w' = upserts w @ [ps]" using w' s by simp
  moreover have "length ps = length texts" using s len by simp
  moreover have "map point_vector ps = embeddings" using s vec by simp
  moreover have "map point_id ps = map (\<lambda>i. uuid4 env (uuid_count w + i)) [0..<length texts]"
    using s len by simp
  moreover have "\<forall>i<length texts. \<forall>k. k \<noteq> ''text'' \<longrightarrow> k \<noteq> ''timestamp'' \<longrightarrow>
              point_payload (ps ! i) k = (metadata ! i) k"
    using s len assms(2,3) by simp
  moreover have "\<forall>i<length texts. point_payload (ps ! i) ''text'' = Some (MStr (texts ! i))"
    using s len assms(2,3) by simp
  moreover have "\<forall>ids'. r = Inr ids' \<longrightarrow> ids' = map point_id ps"
    using r s by (auto split: option.splits)
  moreover have "files w' = files w" using w' s by simp
  ultimately show ?thesis by blast
qed


lemma ingest_success_inv:
  assumes "process_and_store_document env w p = Some (Inr res, w')"
  shows "\<exists>chunks base vs ids w1 fname.
           process_document env p = Some (Inr (chunks, base)) \<and> chunks \<noteq> [] \<and>
           embed_chunks env chunks = Inr vs \<and>
           add_documents env w chunks vs (metadata_list base (length chunks)) = (Inr ids, w1) \<and>
           w' = delete_file env p w1 \<and> base ''filename'' = Some fname \<and>
           res = \<lparr>success = True, message = ''Document processed and stored successfully'',
                  document_ids = ids, filename = fname, chunks_count = length chunks\<rparr>"
proof -
  from process_document_returns obtain r0 where r0: "process_document env p = Some r0" by blast
  show ?thesis
  proof (cases r0)
    case (Inl e)
    with assms r0 show ?thesis by (simp add: process_and_store_document_def)
  next
    case (Inr cb)
    obtain chunks base where cb: "cb = (chunks, base)" by (cases cb) auto
    note pd = r0 [unfolded Inr cb]
    show ?thesis
    proof (cases "chunks = []")
      case True
      with assms pd show ?thesis by (simp add: process_and_store_document_def)
    next
      case ne: False
      show ?thesis
      proof (cases "embed_chunks env chunks")
        case (Inl e)
        with assms pd ne show ?thesis by (simp add: process_and_store_document_def)
      next
        case vs: (Inr vs)
        obtain r1 w1 where ad:
          "add_documents env w chunks vs (metadata_list base (length chunks)) = (r1, w1)"
          by (cases "add_documents env w chunks vs (metadata_list base (length chunks))") auto
        show ?thesis
        proof (cases r1)
          case (Inl e)
          with assms pd ne vs ad show ?thesis by (simp add: process_and_store_document_def)
        next
          case ids: (Inr ids)
          from process_document_metadata(2) [OF pd] obtain fname
            where fn: "base ''filename'' = Some (MStr fname)" by blast
          from assms pd ne vs ad ids fn show ?thesis
            by (auto simp: process_and_store_document_def Let_def)
        qed
      qed
    qed
  qed
qed

lemma metadata_list_nth:
  "i < n \<Longrightarrow> metadata_list base n ! i = base(''chunk_index'' \<mapsto> MInt (int i))"
  by (simp add: metadata_list_def)

lemma length_metadata_list: "length (metadata_list base n) = n"
  by (simp add: metadata_list_def)

text \<open>
  Claim C10: for every successful ingest of a document with \<open>n\<close> chunks, the per-chunk
  metadata handed to the store has \<open>chunk_index\<close> \<open>0, 1, \<dots>, n-1\<close> in chunk order and
  \<open>total_chunks = n\<close> on every chunk, and \<open>document_ids\<close> has \<open>n\<close> elements, one newly
  drawn identifier per chunk, matching \<open>chunks_count\<close>.
\<close>

theorem ingest_chunk_metadata:
  assumes "process_and_store_document env w file_path = Some (Inr res, w')"
  shows "\<exists>chunks base batch.
           process_document env file_path = Some (Inr (chunks, base)) \<and>
           upserts w' = upserts w @ [batch] \<and>
           length batch = length chunks \<and>
           (\<forall>i<length chunks.
              point_payload (batch ! i) ''chunk_index'' = Some (MInt (int i)) \<and>
              point_payload (batch ! i) ''total_chunks'' = Some (MInt (int (length chunks))) \<and>
              point_payload (batch ! i) ''text'' = Some (MStr (chunks ! i))) \<and>
           document_ids res = map (\<lambda>i. uuid4 env (uuid_count w + i)) [0..<length chunks] \<and>
           map point_id batch = document_ids res \<and>
           length (document_ids res) = length chunks \<and>
           chunks_count res = length chunks"
proof -
  from ingest_success_inv [OF assms] obtain chunks base vs ids w1 fname where
    pd: "process_document env file_path = Some (Inr (chunks, base))" and
    vs: "embed_chunks env chunks = Inr vs" and
    ad: "add_documents env w chunks vs (metadata_list base (length chunks)) = (Inr ids, w1)" and
    w': "w' = delete_file env file_path w1" and
    res: "res = \<lparr>success = True, message = ''Document processed and stored successfully'',
                  document_ids = ids, filename = fname, chunks_count = length chunks\<rparr>"
    by blast
  let ?n = "length chunks"
  from add_documents_spec [OF ad embed_chunks_length [OF vs] length_metadata_list]
  obtain batch where
    up: "upserts w1 = upserts w @ [batch]" and len: "length batch = ?n" and
    pid: "map point_id batch = map (\<lambda>i. uuid4 env (uuid_count w + i)) [0..<?n]" and
    meta: "\<forall>i<?n. \<forall>k. k \<noteq> ''text'' \<longrightarrow> k \<noteq> ''timestamp'' \<longrightarrow>
              point_payload (batch ! i) k = (metadata_list base ?n ! i) k" and
    ptext: "\<forall>i<?n. point_payload (batch ! i) ''text'' = Some (MStr (chunks ! i))" and
    ids: "\<forall>ids'. Inr ids = (Inr ids' :: exn + string list) \<longrightarrow> ids' = map point_id batch"
    by blast
  have ids_eq: "ids = map point_id batch" using ids by blast
  have total: "base ''total_chunks'' = Some (MInt (int ?n))"
    by (rule process_document_metadata(1) [OF pd])
  have idx: "\<forall>i<?n. point_payload (batch ! i) ''chunk_index'' = Some (MInt (int i)) \<and>
              point_payload (batch ! i) ''total_chunks'' = Some (MInt (int ?n)) \<and>
              point_payload (batch ! i) ''text'' = Some (MStr (chunks ! i))"
  proof (intro allI impI)
    fix i assume i: "i < ?n"
    from meta i have "point_payload (batch ! i) ''chunk_index'' = (metadata_list base ?n ! i) ''chunk_index''"
      by simp
    moreover from meta i
    have "point_payload (batch ! i) ''total_chunks'' = (metadata_list base ?n ! i) ''total_chunks''"
      by simp
    ultimately show "point_payload (batch ! i) ''chunk_index'' = Some (MInt (int i)) \<and>
              point_payload (batch ! i) ''total_chunks'' = Some (MInt (int ?n)) \<and>
              point_payload (batch ! i) ''text'' = Some (MStr (chunks ! i))"
      using i ptext total by (simp add: metadata_list_nth)
  qed
  have "upserts w' = upserts w @ [batch]" using w' up by (simp add: delete_file_fields)
  moreover have "document_ids res = map (\<lambda>i. uuid4 env (uuid_count w + i)) [0..<?n]"
    using res ids_eq pid by simp
  moreover have "map point_id batch = document_ids res" using res ids_eq by simp
  moreover have "length (document_ids res) = ?n" using res ids_eq len by simp
  moreover have "chunks_count res = ?n" using res by simp
  ultimately show ?thesis using pd len idx by blast
qed


subsection \<open>The sample ingest, evaluated\<close>

lemma sub_whitespace_letters:
  "sub_whitespace (replicate n (CHR ''a'')) = replicate n (CHR ''a'')"
  by (induction n) (simp_all add: is_space_a)

lemma clean_text_letters: "clean_text (replicate n (CHR ''a'')) = replicate n (CHR ''a'')"
proof -
  have "kept_char (CHR ''a'')" by (simp add: kept_char_def is_word_def)
  then have "filter kept_char (replicate n (CHR ''a'')) = replicate n (CHR ''a'')" by simp
  then show ?thesis by (simp add: clean_text_def sub_whitespace_letters strip_replicate_a)
qed

lemma chunk_text_1500:
  "chunk_text (replicate 1500 (CHR ''a'')) 1000 200 =
     Some [replicate 1000 (CHR ''a''), replicate 700 (CHR ''a'')]"
proof -
  let ?t = "replicate 1500 (CHR ''a'')"
  let ?keep = "filter (\<lambda>c :: string. c \<noteq> [])"
  have plain: "window_end ?t 1000 s = s + 1000" if "0 \<le> s" for s
    using that by (intro window_end_plain) simp_all
  have "chunk_loop ?t 1000 200 0 (?keep []) =
          chunk_loop ?t 1000 200 800 (?keep ([] @ [strip (slice ?t 0 1000)]))"
    by (rule chunk_loop_advance) (simp_all add: plain)
  also have "\<dots> = chunk_loop ?t 1000 200 1600
                     (?keep (([] @ [strip (slice ?t 0 1000)]) @ [strip (slice ?t 800 1800)]))"
    by (rule chunk_loop_advance) (simp_all add: plain)
  also have "\<dots> = Some (?keep (([] @ [strip (slice ?t 0 1000)]) @ [strip (slice ?t 800 1800)]))"
    by (rule chunk_loop_done) simp
  finally have "chunk_loop ?t 1000 200 0 [] =
                  Some [replicate 1000 (CHR ''a''), replicate 700 (CHR ''a'')]"
    by (simp add: slice_replicate strip_replicate_a)
  then show ?thesis by (simp add: chunk_text_def)
qed

lemma sample_file_ext: "lower (split_last (CHR ''.'') ''uploads/doc.txt'') = ''txt''"
  by code_simp

lemma sample_basename: "split_last (CHR ''/'') ''uploads/doc.txt'' = ''doc.txt''"
  by code_simp

lemma process_document_sample:
  assumes "extract_text env = (\<lambda>file_ext file_path. Inr (replicate 1500 (CHR ''a'')))"
  shows "process_document env ''uploads/doc.txt'' =
     Some (Inr ([replicate 1000 (CHR ''a''), replicate 700 (CHR ''a'')],
                [''filename'' \<mapsto> MStr ''doc.txt'', ''file_type'' \<mapsto> MStr ''txt'',
                 ''total_chunks'' \<mapsto> MInt 2]))"
  by (simp add: process_document_def assms Let_def sample_file_ext sample_basename
        supported_types_def clean_text_letters strip_replicate_a chunk_text_1500)

lemma embed_chunks_sample: "embed_chunks sample_env chunks = Inr (map (\<lambda>c. [1, 2, 3]) chunks)"
  by (induction chunks) (simp_all add: generate_embeddings_def sample_env_def)

lemma add_documents_accepted:
  "client_upsert env = (\<lambda>points. None) \<Longrightarrow>
   \<exists>ids w1. add_documents env w texts embeddings metadata = (Inr ids, w1)"
  by (simp add: add_documents_def Let_def split_def)

lemma sample_ingest_runs:
  "\<exists>res w'. process_and_store_document sample_env sample_world ''uploads/doc.txt'' =
             Some (Inr res, w')"
proof -
  let ?base = "[''filename'' \<mapsto> MStr ''doc.txt'', ''file_type'' \<mapsto> MStr ''txt'',
                ''total_chunks'' \<mapsto> MInt 2]"
  let ?chunks = "[replicate 1000 (CHR ''a''), replicate 700 (CHR ''a'')]"
  have pd: "process_document sample_env ''uploads/doc.txt'' = Some (Inr (?chunks, ?base))"
    by (rule process_document_sample) (simp add: sample_env_def)
  let ?vs = "[[1, 2, 3], [1, 2, 3 :: real]]"
  have emb: "embed_chunks sample_env ?chunks = Inr ?vs"
    by (simp add: embed_chunks_sample del: embed_chunks.simps)
  have "client_upsert sample_env = (\<lambda>points. None)" by (simp add: sample_env_def)
  from add_documents_accepted [OF this] obtain ids w1 where
    ad: "add_documents sample_env sample_world ?chunks ?vs
           (metadata_list ?base (length ?chunks)) = (Inr ids, w1)"
    by blast
  have "process_and_store_document sample_env sample_world ''uploads/doc.txt'' =
          (let w2 = delete_file sample_env ''uploads/doc.txt'' w1
           in case ?base ''filename'' of
                None \<Rightarrow> Some (Inl (External ''KeyError'' ''filename''),
                              delete_file sample_env ''uploads/doc.txt'' w2)
              | Some fname \<Rightarrow>
                  Some (Inr \<lparr>success = True,
                             message = ''Document processed and stored successfully'',
                             document_ids = ids, filename = fname,
                             chunks_count = length ?chunks\<rparr>, w2))"
    by (simp only: process_and_store_document_def pd emb ad option.case sum.case prod.case
          list.distinct if_False)
  then show ?thesis by (simp add: Let_def)
qed

theorem ingest_chunk_metadata_witness:
  "\<exists>res w' batch.
     process_and_store_document sample_env sample_world ''uploads/doc.txt'' = Some (Inr res, w') \<and>
     upserts w' = [batch] \<and> length batch = 2 \<and>
     map (\<lambda>p. point_payload p ''chunk_index'') batch = [Some (MInt 0), Some (MInt 1)] \<and>
     map (\<lambda>p. point_payload p ''total_chunks'') batch = [Some (MInt 2), Some (MInt 2)] \<and>
     document_ids res = [''id-'', ''id-i''] \<and> chunks_count res = 2"
proof -
  from sample_ingest_runs obtain res w' where
    run: "process_and_store_document sample_env sample_world ''uploads/doc.txt'' = Some (Inr res, w')"
    by blast
  from ingest_chunk_metadata [OF run] obtain chunks base batch where
    pd: "process_document sample_env ''uploads/doc.txt'' = Some (Inr (chunks, base))" and
    up: "upserts w' = upserts sample_world @ [batch]" and
    len: "length batch = length chunks" and
    idx: "\<forall>i<length chunks.
            point_payload (batch ! i) ''chunk_index'' = Some (MInt (int i)) \<and>
            point_payload (batch ! i) ''total_chunks'' = Some (MInt (int (length chunks))) \<and>
            point_payload (batch ! i) ''text'' = Some (MStr (chunks ! i))" and
    ids: "document_ids res = map (\<lambda>i. uuid4 sample_env (uuid_count sample_world + i)) [0..<length chunks]" and
    cnt: "chunks_count res = length chunks"
    by blast
  have "process_document sample_env ''uploads/doc.txt'' =
     Some (Inr ([replicate 1000 (CHR ''a''), replicate 700 (CHR ''a'')],
                [''filename'' \<mapsto> MStr ''doc.txt'', ''file_type'' \<mapsto> MStr ''txt'',
                 ''total_chunks'' \<mapsto> MInt 2]))"
    by (rule process_document_sample) (simp add: sample_env_def)
  with pd have n: "length chunks = 2" by auto
  from len n obtain p0 p1 where batch: "batch = [p0, p1]"
    by (cases batch; cases "tl batch") auto
  from idx n have "point_payload (batch ! 0) ''chunk_index'' = Some (MInt 0)"
    "point_payload (batch ! 1) ''chunk_index'' = Some (MInt 1)"
    "point_payload (batch ! 0) ''total_chunks'' = Some (MInt 2)"
    "point_payload (batch ! 1) ''total_chunks'' = Some (MInt 2)"
    by auto
  with batch have
    "map (\<lambda>p. point_payload p ''chunk_index'') batch = [Some (MInt 0), Some (MInt 1)]"
    "map (\<lambda>p. point_payload p ''total_chunks'') batch = [Some (MInt 2), Some (MInt 2)]"
    by simp_all
  moreover have "document_ids res = [''id-'', ''id-i'']"
    using ids n by (simp add: sample_env_def sample_world_def upt_rec numeral_2_eq_2)
  moreover have "upserts w' = [batch]" using up by (simp add: sample_world_def)
  ultimately show ?thesis using run len n cnt by auto
qed


subsection \<open>Cleanup and the vectors handed to the store\<close>

lemma add_documents_files:
  assumes "add_documents env w texts embeddings metadata = (r, w')"
  shows "files w' = files w"
proof -
  obtain ps ids w1 where b:
    "build_points env w (zip texts (zip embeddings metadata)) = ((ps, ids), w1)"
    by (metis surj_pair)
  from assms b have "w' = w1\<lparr>upserts := upserts w1 @ [ps]\<rparr>"
    by (auto simp: add_documents_def Let_def split: option.splits)
  with build_points_spec [OF b] show ?thesis by simp
qed

lemma ingest_returns: "\<exists>r w'. process_and_store_document env w p = Some (r, w')"
proof -
  from process_document_returns obtain r0 where "process_document env p = Some r0" by blast
  then show ?thesis
    by (simp add: process_and_store_document_def Let_def
          split: sum.split prod.split option.split)
qed

lemma ingest_final_files:
  assumes run: "process_and_store_document env w p = Some (r, w')"
  shows "files w' = (if remove_fails env p then files w else files w - {p})"
proof -
  have twice: "files (delete_file env p (delete_file env p v)) = files (delete_file env p v)" for v
    by (auto simp: delete_file_def)
  have "\<exists>v. files v = files w \<and> files w' = files (delete_file env p v)"
  proof (cases "process_document env p")
    case None
    with run show ?thesis by (simp add: process_and_store_document_def)
  next
    case (Some r0)
    show ?thesis
    proof (cases r0)
      case (Inl e)
      with run Some have "w' = delete_file env p w" by (simp add: process_and_store_document_def)
      then show ?thesis by blast
    next
      case (Inr cb)
      obtain chunks base where cb: "cb = (chunks, base)" by (cases cb) auto
      note pd = Some [unfolded Inr cb]
      show ?thesis
      proof (cases "chunks = []")
        case True
        with run pd have "w' = delete_file env p w" by (simp add: process_and_store_document_def)
        then show ?thesis by blast
      next
        case ne: False
        show ?thesis
        proof (cases "embed_chunks env chunks")
          case (Inl e)
          with run pd ne have "w' = delete_file env p w"
            by (simp add: process_and_store_document_def)
          then show ?thesis by blast
        next
          case vs: (Inr vs)
          obtain r1 w1 where ad:
            "add_documents env w chunks vs (metadata_list base (length chunks)) = (r1, w1)"
            by (cases "add_documents env w chunks vs (metadata_list base (length chunks))") auto
          have f1: "files w1 = files w" by (rule add_documents_files [OF ad])
          from run pd ne vs ad have
            "w' = delete_file env p w1 \<or> w' = delete_file env p (delete_file env p w1)"
            by (cases r1; cases "base ''filename''")
               (simp_all add: process_and_store_document_def Let_def)
          with f1 twice show ?thesis by metis
        qed
      qed
    qed
  qed
  then obtain v where "files v = files w" "files w' = files (delete_file env p v)" by blast
  then show ?thesis by (simp add: delete_file_fields)
qed

lemma ingest_vectors:
  assumes "process_and_store_document env w p = Some (Inr res, w')"
  shows "\<exists>chunks base vs batch.
           process_document env p = Some (Inr (chunks, base)) \<and>
           embed_chunks env chunks = Inr vs \<and>
           upserts w' = upserts w @ [batch] \<and> map point_vector batch = vs"
proof -
  from ingest_success_inv [OF assms] obtain chunks base vs ids w1 where
    pd: "process_document env p = Some (Inr (chunks, base))" and
    vs: "embed_chunks env chunks = Inr vs" and
    ad: "add_documents env w chunks vs (metadata_list base (length chunks)) = (Inr ids, w1)" and
    w': "w' = delete_file env p w1"
    by blast
  from add_documents_spec [OF ad embed_chunks_length [OF vs] length_metadata_list]
  obtain batch where "upserts w1 = upserts w @ [batch]" "map point_vector batch = vs"
    by blast
  with pd vs w' show ?thesis by (auto simp: delete_file_fields)
qed

lemma quota_second_chunk:
  "generate_embeddings quota_env (replicate 700 (CHR ''a'')) =
     Inl (Exception ''Failed to generate embeddings: quota exceeded'')"
  by (simp add: generate_embeddings_def quota_env_def sample_env_def)

lemma embed_chunks_constant:
  "embed_content env = (\<lambda>task text. Inr v) \<Longrightarrow>
   embed_chunks env chunks = Inr (map (\<lambda>c. v) chunks)"
  by (induction chunks) (simp_all add: generate_embeddings_def)

lemma readonly_ingest_runs:
  "\<exists>res w'. process_and_store_document readonly_env sample_world ''uploads/doc.txt'' =
             Some (Inr res, w')"
proof -
  let ?base = "[''filename'' \<mapsto> MStr ''doc.txt'', ''file_type'' \<mapsto> MStr ''txt'',
                ''total_chunks'' \<mapsto> MInt 2]"
  let ?chunks = "[replicate 1000 (CHR ''a''), replicate 700 (CHR ''a'')]"
  let ?vs = "[[1, 2, 3], [1, 2, 3 :: real]]"
  have pd: "process_document readonly_env ''uploads/doc.txt'' = Some (Inr (?chunks, ?base))"
    by (rule process_document_sample) (simp add: readonly_env_def sample_env_def)
  have "embed_content readonly_env = (\<lambda>task text. Inr [1, 2, 3])"
    by (simp add: readonly_env_def sample_env_def)
  from embed_chunks_constant [OF this, of ?chunks]
  have emb: "embed_chunks readonly_env ?chunks = Inr ?vs" by simp
  have "client_upsert readonly_env = (\<lambda>points. None)"
    by (simp add: readonly_env_def sample_env_def)
  from add_documents_accepted [OF this] obtain ids w1 where
    ad: "add_documents readonly_env sample_world ?chunks ?vs
           (metadata_list ?base (length ?chunks)) = (Inr ids, w1)"
    by blast
  have "process_and_store_document readonly_env sample_world ''uploads/doc.txt'' =
          (let w2 = delete_file readonly_env ''uploads/doc.txt'' w1
           in case ?base ''filename'' of
                None \<Rightarrow> Some (Inl (External ''KeyError'' ''filename''),
                              delete_file readonly_env ''uploads/doc.txt'' w2)
              | Some fname \<Rightarrow>
                  Some (Inr \<lparr>success = True,
                             message = ''Document processed and stored successfully'',
                             document_ids = ids, filename = fname,
                             chunks_count = length ?chunks\<rparr>, w2))"
    by (simp only: process_and_store_document_def pd emb ad option.case sum.case prod.case
          list.distinct if_False)
  then show ?thesis by (simp add: Let_def)
qed

lemma readonly_quota_ingest_raises:
  "\<exists>e w'. process_and_store_document readonly_quota_env sample_world ''uploads/doc.txt'' =
           Some (Inl e, w')"
proof -
  let ?base = "[''filename'' \<mapsto> MStr ''doc.txt'', ''file_type'' \<mapsto> MStr ''txt'',
                ''total_chunks'' \<mapsto> MInt 2]"
  let ?chunks = "[replicate 1000 (CHR ''a''), replicate 700 (CHR ''a'')]"
  have pd: "process_document readonly_quota_env ''uploads/doc.txt'' =
              Some (Inr (?chunks, ?base))"
    by (rule process_document_sample)
       (simp add: readonly_quota_env_def quota_env_def sample_env_def)
  have "isl (generate_embeddings readonly_quota_env (replicate 700 (CHR ''a'')))"
    by (simp add: generate_embeddings_def readonly_quota_env_def quota_env_def sample_env_def)
  then have "\<exists>c\<in>set ?chunks. isl (generate_embeddings readonly_quota_env c)" by simp
  from embed_chunks_raises [OF this] obtain e where
    e: "embed_chunks readonly_quota_env ?chunks = Inl e" by blast
  have "process_and_store_document readonly_quota_env sample_world ''uploads/doc.txt'' =
          Some (Inl e, delete_file readonly_quota_env ''uploads/doc.txt'' sample_world)"
    by (simp only: process_and_store_document_def pd e option.case sum.case prod.case
          list.distinct if_False)
  then show ?thesis by blast
qed

text \<open>
  Claim C4 (counterexample): \<open>os.remove\<close> fails for the uploaded file. \<open>delete_file\<close>
  swallows the failure, and the file is still on disk after the ingest, both when an
  embedding call raises and when the ingest succeeds.
\<close>

theorem file_survives_failed_remove:
  "map_option (isl \<circ> fst)
     (process_and_store_document readonly_quota_env sample_world ''uploads/doc.txt'') =
     Some True \<and>
   map_option (files \<circ> snd)
     (process_and_store_document readonly_quota_env sample_world ''uploads/doc.txt'') =
     Some {''uploads/doc.txt''} \<and>
   map_option (isl \<circ> fst)
     (process_and_store_document readonly_env sample_world ''uploads/doc.txt'') =
     Some False \<and>
   map_option (files \<circ> snd)
     (process_and_store_document readonly_env sample_world ''uploads/doc.txt'') =
     Some {''uploads/doc.txt''}"
proof -
  from readonly_quota_ingest_raises obtain e w1 where
    r1: "process_and_store_document readonly_quota_env sample_world ''uploads/doc.txt'' =
           Some (Inl e, w1)" by blast
  from readonly_ingest_runs obtain res w2 where
    r2: "process_and_store_document readonly_env sample_world ''uploads/doc.txt'' =
           Some (Inr res, w2)" by blast
  have "remove_fails readonly_quota_env ''uploads/doc.txt''"
    by (simp add: readonly_quota_env_def)
  with ingest_final_files [OF r1] have f1: "files w1 = {''uploads/doc.txt''}"
    by (simp add: sample_world_def)
  have "remove_fails readonly_env ''uploads/doc.txt''"
    by (simp add: readonly_env_def)
  with ingest_final_files [OF r2] have f2: "files w2 = {''uploads/doc.txt''}"
    by (simp add: sample_world_def)
  from r1 r2 f1 f2 show ?thesis by simp
qed

text \<open>
  Claim C4 (amended): if any per-chunk embedding call raises, the whole ingest raises,
  \<open>add_documents\<close> is never invoked (no batch reaches \<open>client.upsert\<close> and no identifier is
  drawn) and \<open>delete_file\<close> is run on the temporary file; \<open>delete_file\<close> is run as well
  on the success path and on every other failure path, and every ingest returns. After
  it the file is gone, unless \<open>os.remove\<close> itself fails: \<open>delete_file\<close> swallows that
  failure and the files on disk are as before.
\<close>

theorem ingest_cleanup:
  "(\<forall>chunks base.
      process_document env file_path = Some (Inr (chunks, base)) \<and>
      (\<exists>c\<in>set chunks. isl (generate_embeddings env c)) \<longrightarrow>
      (\<exists>e w'. process_and_store_document env w file_path = Some (Inl e, w') \<and>
               (\<exists>c\<in>set chunks. generate_embeddings env c = Inl e) \<and>
               upserts w' = upserts w \<and> uuid_count w' = uuid_count w \<and>
               files w' = (if remove_fails env file_path then files w
                           else files w - {file_path}))) \<and>
   (\<exists>r w'. process_and_store_document env w file_path = Some (r, w') \<and>
            files w' = (if remove_fails env file_path then files w
                        else files w - {file_path}))"
proof (intro conjI allI impI)
  fix chunks base
  assume a: "process_document env file_path = Some (Inr (chunks, base)) \<and>
             (\<exists>c\<in>set chunks. isl (generate_embeddings env c))"
  then have ne: "chunks \<noteq> []" by auto
  from a embed_chunks_raises [of chunks env] obtain e where
    e: "embed_chunks env chunks = Inl e" "\<exists>c\<in>set chunks. generate_embeddings env c = Inl e"
    by blast
  from a ne e have
    "process_and_store_document env w file_path = Some (Inl e, delete_file env file_path w)"
    by (simp add: process_and_store_document_def)
  with e(2) show "\<exists>e w'. process_and_store_document env w file_path = Some (Inl e, w') \<and>
               (\<exists>c\<in>set chunks. generate_embeddings env c = Inl e) \<and>
               upserts w' = upserts w \<and> uuid_count w' = uuid_count w \<and>
               files w' = (if remove_fails env file_path then files w
                           else files w - {file_path})"
    by (auto simp: delete_file_fields)
next
  from ingest_returns obtain r w' where
    run: "process_and_store_document env w file_path = Some (r, w')" by blast
  from ingest_final_files [OF run] run
  show "\<exists>r w'. process_and_store_document env w file_path = Some (r, w') \<and>
            files w' = (if remove_fails env file_path then files w
                        else files w - {file_path})"
    by blast
qed

theorem ingest_cleanup_witness:
  "process_document quota_env ''uploads/doc.txt'' =
     Some (Inr ([replicate 1000 (CHR ''a''), replicate 700 (CHR ''a'')],
                [''filename'' \<mapsto> MStr ''doc.txt'', ''file_type'' \<mapsto> MStr ''txt'',
                 ''total_chunks'' \<mapsto> MInt 2])) \<and>
   isl (generate_embeddings quota_env (replicate 700 (CHR ''a''))) \<and>
   \<not> remove_fails quota_env ''uploads/doc.txt'' \<and>
   ''uploads/doc.txt'' \<in> files sample_world \<and>
   (\<exists>w'. process_and_store_document quota_env sample_world ''uploads/doc.txt'' =
            Some (Inl (Exception ''Failed to generate embeddings: quota exceeded''), w') \<and>
          upserts w' = upserts sample_world \<and> files w' = {})"
proof -
  let ?chunks = "[replicate 1000 (CHR ''a''), replicate 700 (CHR ''a'')]"
  let ?base = "[''filename'' \<mapsto> MStr ''doc.txt'', ''file_type'' \<mapsto> MStr ''txt'',
                ''total_chunks'' \<mapsto> MInt 2]"
  have pd: "process_document quota_env ''uploads/doc.txt'' = Some (Inr (?chunks, ?base))"
    by (rule process_document_sample) (simp add: quota_env_def sample_env_def)
  have rm: "\<not> remove_fails quota_env ''uploads/doc.txt''"
    by (simp add: quota_env_def sample_env_def)
  have first: "generate_embeddings quota_env (replicate 1000 (CHR ''a'')) = Inr [1, 2, 3]"
    by (simp add: generate_embeddings_def quota_env_def sample_env_def)
  have bad: "\<exists>c\<in>set ?chunks. isl (generate_embeddings quota_env c)"
    by (simp add: quota_second_chunk)
  from ingest_cleanup [of quota_env "''uploads/doc.txt''" sample_world] pd bad
  obtain e w' where
    run: "process_and_store_document quota_env sample_world ''uploads/doc.txt'' = Some (Inl e, w')"
    and e: "\<exists>c\<in>set ?chunks. generate_embeddings quota_env c = Inl e"
    and w': "upserts w' = upserts sample_world"
      "files w' = (if remove_fails quota_env ''uploads/doc.txt'' then files sample_world
                   else files sample_world - {''uploads/doc.txt''})"
    by blast
  from e first have "e = Exception ''Failed to generate embeddings: quota exceeded''"
    by (auto simp: quota_second_chunk)
  moreover from w'(2) rm have "files w' = {}" by (simp add: sample_world_def)
  ultimately show ?thesis using run w'(1) pd rm by (simp add: quota_second_chunk sample_world_def)
qed

text \<open>
  Claim C3 (counterexample): the external call returns a vector of length 3, not
  \<open>EMBEDDING_DIMENSION = 3072\<close>; \<open>generate_embeddings\<close> returns it, the ingest succeeds and
  both three-dimensional vectors are in the batch handed to \<open>client.upsert\<close>.
\<close>

theorem short_vector_upserted:
  "generate_embeddings sample_env ''Some text.'' = Inr [1, 2, 3] \<and>
   length [1, 2, 3 :: real] \<noteq> EMBEDDING_DIMENSION \<and>
   map_option (isl \<circ> fst) (process_and_store_document sample_env sample_world ''uploads/doc.txt'') =
     Some False \<and>
   map_option (map (map point_vector) \<circ> upserts \<circ> snd)
     (process_and_store_document sample_env sample_world ''uploads/doc.txt'') =
     Some [[[1, 2, 3], [1, 2, 3]]]"
proof -
  from sample_ingest_runs obtain res w' where
    run: "process_and_store_document sample_env sample_world ''uploads/doc.txt'' = Some (Inr res, w')"
    by blast
  from ingest_vectors [OF run] obtain chunks base vs batch where
    pd: "process_document sample_env ''uploads/doc.txt'' = Some (Inr (chunks, base))" and
    vs: "embed_chunks sample_env chunks = Inr vs" and
    up: "upserts w' = upserts sample_world @ [batch]" "map point_vector batch = vs"
    by blast
  have "process_document sample_env ''uploads/doc.txt'' =
     Some (Inr ([replicate 1000 (CHR ''a''), replicate 700 (CHR ''a'')],
                [''filename'' \<mapsto> MStr ''doc.txt'', ''file_type'' \<mapsto> MStr ''txt'',
                 ''total_chunks'' \<mapsto> MInt 2]))"
    by (rule process_document_sample) (simp add: sample_env_def)
  with pd have "chunks = [replicate 1000 (CHR ''a''), replicate 700 (CHR ''a'')]" by simp
  with vs have "vs = [[1, 2, 3], [1, 2, 3]]" by (simp add: embed_chunks_sample del: embed_chunks.simps)
  with up have "map (map point_vector) (upserts w') = [[[1, 2, 3], [1, 2, 3]]]"
    by (simp add: sample_world_def)
  moreover have "generate_embeddings sample_env ''Some text.'' = Inr [1, 2, 3]"
    by (simp add: generate_embeddings_def sample_env_def)
  ultimately show ?thesis using run by (simp add: EMBEDDING_DIMENSION_def)
qed

text \<open>
  Claim C3 (amended): \<open>generate_embeddings\<close> raises (a plain \<open>Exception\<close> with the message
  "Failed to generate embeddings: \<dots>") whenever the external call raises; a vector the
  external call returns is returned unchanged, whatever its length, and a successful ingest
  hands exactly the vectors the external call returned, in chunk order, to \<open>client.upsert\<close>.
  No length is compared with \<open>EMBEDDING_DIMENSION\<close> on the way.
\<close>

theorem embedding_passthrough:
  "(\<forall>e. embed_content env RetrievalDocument chunk = Inl e \<longrightarrow>
        generate_embeddings env chunk =
          Inl (Exception (''Failed to generate embeddings: '' @ exn_str e))) \<and>
   (\<forall>v. embed_content env RetrievalDocument chunk = Inr v \<longrightarrow>
        generate_embeddings env chunk = Inr v) \<and>
   (\<forall>res w'. process_and_store_document env w file_path = Some (Inr res, w') \<longrightarrow>
      (\<exists>chunks base batch.
         process_document env file_path = Some (Inr (chunks, base)) \<and>
         upserts w' = upserts w @ [batch] \<and> length batch = length chunks \<and>
         (\<forall>i<length chunks.
            embed_content env RetrievalDocument (chunks ! i) = Inr (point_vector (batch ! i)))))"
proof (intro conjI allI impI)
  fix res w'
  assume run: "process_and_store_document env w file_path = Some (Inr res, w')"
  from ingest_vectors [OF run] obtain chunks base vs batch where
    pd: "process_document env file_path = Some (Inr (chunks, base))" and
    vs: "embed_chunks env chunks = Inr vs" and
    up: "upserts w' = upserts w @ [batch]" "map point_vector batch = vs"
    by blast
  have len: "length batch = length chunks"
    using embed_chunks_length [OF vs] up(2) by (metis length_map)
  have "\<forall>i<length chunks.
          embed_content env RetrievalDocument (chunks ! i) = Inr (point_vector (batch ! i))"
  proof (intro allI impI)
    fix i assume i: "i < length chunks"
    from embed_chunks_nth [OF vs i] have "generate_embeddings env (chunks ! i) = Inr (vs ! i)" .
    then have "embed_content env RetrievalDocument (chunks ! i) = Inr (vs ! i)"
      by (simp add: generate_embeddings_def split: sum.splits)
    moreover have "vs ! i = point_vector (batch ! i)" using up(2) i len by auto
    ultimately show "embed_content env RetrievalDocument (chunks ! i) = Inr (point_vector (batch ! i))"
      by simp
  qed
  with pd up(1) len show "\<exists>chunks base batch.
         process_document env file_path = Some (Inr (chunks, base)) \<and>
         upserts w' = upserts w @ [batch] \<and> length batch = length chunks \<and>
         (\<forall>i<length chunks.
            embed_content env RetrievalDocument (chunks ! i) = Inr (point_vector (batch ! i)))"
    by blast
qed (simp_all add: generate_embeddings_def)

theorem embedding_passthrough_witness:
  "embed_content quota_env RetrievalDocument (replicate 700 (CHR ''a'')) =
     Inl (External ''ResourceExhausted'' ''quota exceeded'') \<and>
   generate_embeddings quota_env (replicate 700 (CHR ''a'')) =
     Inl (Exception ''Failed to generate embeddings: quota exceeded'') \<and>
   embed_content sample_env RetrievalDocument ''Some text.'' = Inr [1, 2, 3] \<and>
   generate_embeddings sample_env ''Some text.'' = Inr [1, 2, 3] \<and>
   (\<exists>res w' batch.
      process_and_store_document sample_env sample_world ''uploads/doc.txt'' = Some (Inr res, w') \<and>
      upserts w' = [batch] \<and> length batch = 2 \<and>
      embed_content sample_env RetrievalDocument (replicate 700 (CHR ''a'')) =
        Inr (point_vector (batch ! 1)))"
proof -
  have q: "embed_content quota_env RetrievalDocument (replicate 700 (CHR ''a'')) =
             Inl (External ''ResourceExhausted'' ''quota exceeded'')"
    by (simp add: quota_env_def sample_env_def)
  have s: "embed_content sample_env RetrievalDocument ''Some text.'' = Inr [1, 2, 3]"
    by (simp add: sample_env_def)
  from sample_ingest_runs obtain res w' where
    run: "process_and_store_document sample_env sample_world ''uploads/doc.txt'' = Some (Inr res, w')"
    by blast
  note t1 = embedding_passthrough [of quota_env "replicate 700 (CHR ''a'')" sample_world "''uploads/doc.txt''"]
  note t2 = embedding_passthrough [of sample_env "''Some text.''" sample_world "''uploads/doc.txt''"]
  from t1 q have g1: "generate_embeddings quota_env (replicate 700 (CHR ''a'')) =
     Inl (Exception ''Failed to generate embeddings: quota exceeded'')" by simp
  from t2 s have g2: "generate_embeddings sample_env ''Some text.'' = Inr [1, 2, 3]" by blast
  from t2 run obtain chunks base batch where
    pd: "process_document sample_env ''uploads/doc.txt'' = Some (Inr (chunks, base))" and
    up: "upserts w' = upserts sample_world @ [batch]" "length batch = length chunks" and
    v: "\<forall>i<length chunks.
          embed_content sample_env RetrievalDocument (chunks ! i) = Inr (point_vector (batch ! i))"
    by blast
  have "process_document sample_env ''uploads/doc.txt'' =
     Some (Inr ([replicate 1000 (CHR ''a''), replicate 700 (CHR ''a'')],
                [''filename'' \<mapsto> MStr ''doc.txt'', ''file_type'' \<mapsto> MStr ''txt'',
                 ''total_chunks'' \<mapsto> MInt 2]))"
    by (rule process_document_sample) (simp add: sample_env_def)
  with pd have c: "chunks = [replicate 1000 (CHR ''a''), replicate 700 (CHR ''a'')]" by simp
  with v have "embed_content sample_env RetrievalDocument (replicate 700 (CHR ''a'')) =
        Inr (point_vector (batch ! 1))" by auto
  moreover have "upserts w' = [batch]" "length batch = 2"
    using up c by (simp_all add: sample_world_def)
  ultimately show ?thesis using q s g1 g2 run by blast
qed


section \<open>Claims about the query path\<close>

lemma search_uuid_count [simp]: "search env (w\<lparr>uuid_count := n\<rparr>) = search env w"
  by (simp add: search_def fun_eq_iff)

lemma query_after_search:
  assumes "generate_query_embedding env q = Inr qe"
    and "search env w qe (Some k) None = Inr results"
  shows "fst (query env w q cid k) =
     (if results = [] then
        (case generate_response env (no_context_prompt q) of
           Inl e \<Rightarrow> Inl e
         | Inr r \<Rightarrow> Inr \<lparr>response = r, conversation_id =
                           (case cid of None \<Rightarrow> uuid4 env (uuid_count w) | Some s \<Rightarrow> if s = [] then uuid4 env (uuid_count w) else s),
                         sources = [],
                         has_context = False, relevance_scores = None\<rparr>)
      else
        (case generate_rag_response env q (map res_text results) of
           Inl e \<Rightarrow> Inl e
         | Inr r \<Rightarrow>
             Inr \<lparr>response = r,
                  conversation_id =
                    (case cid of None \<Rightarrow> uuid4 env (uuid_count w) | Some s \<Rightarrow> if s = [] then uuid4 env (uuid_count w) else s),
                  sources = list_of_set
                    (map (\<lambda>result. case res_metadata result ''filename'' of
                                      None \<Rightarrow> MStr ''Unknown''
                                    | Some v \<Rightarrow> v) results),
                  has_context = True,
                  relevance_scores = Some (map res_score results)\<rparr>))"
proof (cases cid)
  case None
  with assms show ?thesis
    by (simp add: query_def fresh_uuid_def Let_def split: sum.split)
next
  case (Some s)
  with assms show ?thesis
    by (cases "s = []") (simp_all add: query_def fresh_uuid_def Let_def split: sum.split)
qed

lemma query_conv_value:
  assumes "fst (query env w q cid k) = Inr res"
  shows "conversation_id res =
           (case cid of None \<Rightarrow> uuid4 env (uuid_count w) | Some s \<Rightarrow> if s = [] then uuid4 env (uuid_count w) else s)"
proof -
  from assms obtain qe where qe: "generate_query_embedding env q = Inr qe"
    by (cases "generate_query_embedding env q")
       (auto simp: query_def Let_def split_def)
  from assms qe obtain results where rs: "search env w qe (Some k) None = Inr results"
    by (cases "search env w qe (Some k) None"; cases cid)
       (auto simp: query_def Let_def fresh_uuid_def split: if_splits)
  from assms show ?thesis
    unfolding query_after_search [OF qe rs]
    by (auto split: if_splits sum.splits)
qed

lemma query_world:
  "snd (query env w q cid k) =
     (if cid = None \<or> cid = Some [] then w\<lparr>uuid_count := Suc (uuid_count w)\<rparr> else w)"
  by (cases cid)
     (auto simp: query_def fresh_uuid_def Let_def split: sum.splits)

text \<open>
  Claim C5: whenever the similarity search returns an empty result sequence, \<open>query\<close>
  asks for a response with the prompt that carries the note that no reference documents
  are available, and returns a dict with \<open>has_context = False\<close> and \<open>sources = []\<close>; the
  empty retrieval raises nothing itself: the only exception on this path is the one the
  generation call raises.
\<close>

theorem query_no_results:
  assumes "generate_query_embedding env user_query = Inr qe"
    and "search env w qe (Some top_k) None = Inr []"
  shows "(\<forall>r. generate_response env (no_context_prompt user_query) = Inr r \<longrightarrow>
            (\<exists>res. fst (query env w user_query cid top_k) = Inr res \<and>
                   response res = r \<and> sources res = [] \<and> has_context res = False \<and>
                   relevance_scores res = None)) \<and>
         (\<forall>e. fst (query env w user_query cid top_k) = Inl e \<longrightarrow>
            generate_response env (no_context_prompt user_query) = Inl e) \<and>
         no_context_prompt user_query =
           ''Answer this question: '' @ user_query @ [CHR 0x0A, CHR 0x0A] @
           ''Note: No reference documents are available.''"
  unfolding query_after_search [OF assms]
  by (auto simp: no_context_prompt_def newline_def split: sum.splits)

theorem query_no_results_witness:
  "generate_query_embedding sample_env ''What is X?'' = Inr [1, 2, 3] \<and>
   search sample_env sample_world [1, 2, 3] (Some 5) None = Inr [] \<and>
   generate_response sample_env (no_context_prompt ''What is X?'') = Inr ''An answer.'' \<and>
   (\<exists>res. fst (query sample_env sample_world ''What is X?'' None 5) = Inr res \<and>
          response res = ''An answer.'' \<and> sources res = [] \<and> has_context res = False)"
proof -
  have e: "generate_query_embedding sample_env ''What is X?'' = Inr [1, 2, 3]"
    by (simp add: generate_query_embedding_def sample_env_def)
  have s: "search sample_env sample_world [1, 2, 3] (Some 5) None = Inr []"
    by (simp add: search_def sample_env_def)
  have g: "generate_response sample_env (no_context_prompt ''What is X?'') = Inr ''An answer.''"
    by (simp add: generate_response_def sample_env_def)
  from query_no_results [OF e s, of None] g e s show ?thesis by blast
qed

text \<open>
  Claim C6: whenever the similarity search returns a non-empty result sequence, the
  \<open>sources\<close> field of the returned dict is the de-duplicated collection (in some order) of
  the results' \<open>filename\<close> metadata values, with \<open>Unknown\<close> for every result that has none,
  and \<open>has_context = True\<close>. The dict is returned whenever the generation call returns.
\<close>

theorem query_sources:
  assumes "generate_query_embedding env user_query = Inr qe"
    and "search env w qe (Some top_k) None = Inr results"
    and "results \<noteq> []"
  shows "(\<forall>r. generate_rag_response env user_query (map res_text results) = Inr r \<longrightarrow>
            (\<exists>res. fst (query env w user_query cid top_k) = Inr res \<and> response res = r)) \<and>
         (\<forall>res. fst (query env w user_query cid top_k) = Inr res \<longrightarrow>
            set (sources res) =
              (\<lambda>result. case res_metadata result ''filename'' of
                           None \<Rightarrow> MStr ''Unknown''
                         | Some v \<Rightarrow> v) ` set results \<and>
            distinct (sources res) \<and> has_context res = True)"
  unfolding query_after_search [OF assms(1,2)]
  using assms(3) by (auto simp: list_of_set_def split: sum.splits)

lemma search_hits:
  "search hits_env sample_world [1, 2, 3] (Some 5) None = Inr (map format_result sample_hits)"
  by (simp add: search_def hits_env_def sample_env_def)

theorem query_sources_witness:
  "generate_query_embedding hits_env ''What is X?'' = Inr [1, 2, 3] \<and>
   search hits_env sample_world [1, 2, 3] (Some 5) None = Inr (map format_result sample_hits) \<and>
   map format_result sample_hits \<noteq> [] \<and>
   (\<exists>res. fst (query hits_env sample_world ''What is X?'' None 5) = Inr res \<and>
          response res = ''An answer.'' \<and>
          set (sources res) = {MStr ''doc_a.pdf'', MStr ''Unknown''} \<and>
          distinct (sources res) \<and> has_context res = True)"
proof -
  have e: "generate_query_embedding hits_env ''What is X?'' = Inr [1, 2, 3]"
    by (simp add: generate_query_embedding_def hits_env_def sample_env_def)
  have ne: "map format_result sample_hits \<noteq> []" by (simp add: sample_hits_def)
  have g: "generate_rag_response hits_env ''What is X?''
             (map res_text (map format_result sample_hits)) = Inr ''An answer.''"
    by (simp add: generate_rag_response_def generate_response_def hits_env_def sample_env_def)
  have names: "(\<lambda>result. case res_metadata result ''filename'' of
                           None \<Rightarrow> MStr ''Unknown''
                         | Some v \<Rightarrow> v) ` set (map format_result sample_hits) =
               {MStr ''doc_a.pdf'', MStr ''Unknown''}"
    by (simp add: sample_hits_def format_result_def)
  from query_sources [OF e search_hits ne, of None] g obtain res where
    "fst (query hits_env sample_world ''What is X?'' None 5) = Inr res"
    "response res = ''An answer.''"
    "set (sources res) = (\<lambda>result. case res_metadata result ''filename'' of
                           None \<Rightarrow> MStr ''Unknown''
                         | Some v \<Rightarrow> v) ` set (map format_result sample_hits)"
    "distinct (sources res)" "has_context res = True"
    by blast
  with e ne names search_hits show ?thesis by auto
qed

lemma sample_query_value:
  "fst (query sample_env sample_world ''What is X?'' cid 5) =
     Inr \<lparr>response = ''An answer.'',
          conversation_id =
            (case cid of None \<Rightarrow> uuid4 sample_env (uuid_count sample_world) | Some s \<Rightarrow> if s = [] then uuid4 sample_env (uuid_count sample_world) else s),
          sources = [], has_context = False, relevance_scores = None\<rparr>"
proof -
  have e: "generate_query_embedding sample_env ''What is X?'' = Inr [1, 2, 3]"
    by (simp add: generate_query_embedding_def sample_env_def)
  have s: "search sample_env sample_world [1, 2, 3] (Some 5) None = Inr []"
    by (simp add: search_def sample_env_def)
  have g: "generate_response sample_env (no_context_prompt ''What is X?'') = Inr ''An answer.''"
    by (simp add: generate_response_def sample_env_def)
  show ?thesis unfolding query_after_search [OF e s] by (simp add: g)
qed

text \<open>
  Claim C9 (counterexample): the caller supplies the empty string as conversation id, and
  the returned \<open>conversation_id\<close> is a newly drawn identifier, not the caller's string.
\<close>

theorem query_empty_conversation_id:
  "map_sum id conversation_id (fst (query sample_env sample_world ''What is X?'' (Some []) 5)) =
     Inr ''id-'' \<and> ''id-'' \<noteq> []"
  unfolding sample_query_value
  by (simp add: sample_env_def sample_world_def)

text \<open>
  Claim C9 (amended): if no conversation id, or the empty string, is supplied, the returned
  \<open>conversation_id\<close> is a newly generated identifier: the next \<open>uuid4\<close> draw, which differs
  from every earlier draw when \<open>uuid4\<close> never repeats. If the caller supplies a non-empty
  string, the returned \<open>conversation_id\<close> is that string, unchanged, and nothing is drawn.
\<close>

theorem query_conversation_id:
  assumes "fst (query env w user_query cid top_k) = Inr res"
  shows "(cid = None \<or> cid = Some [] \<longrightarrow>
            conversation_id res = uuid4 env (uuid_count w) \<and>
            uuid_count (snd (query env w user_query cid top_k)) = Suc (uuid_count w) \<and>
            (inj (uuid4 env) \<longrightarrow> (\<forall>n<uuid_count w. uuid4 env n \<noteq> conversation_id res))) \<and>
         (\<forall>s. cid = Some s \<and> s \<noteq> [] \<longrightarrow>
            conversation_id res = s \<and> snd (query env w user_query cid top_k) = w)"
  using query_conv_value [OF assms]
  by (auto simp: query_world dest: injD)

theorem query_conversation_id_witness:
  "fst (query sample_env sample_world ''What is X?'' None 5) =
     Inr \<lparr>response = ''An answer.'', conversation_id = ''id-'', sources = [],
          has_context = False, relevance_scores = None\<rparr> \<and>
   uuid4 sample_env (uuid_count sample_world) = ''id-'' \<and>
   inj (uuid4 sample_env) \<and>
   fst (query sample_env sample_world ''What is X?'' (Some ''abc123'') 5) =
     Inr \<lparr>response = ''An answer.'', conversation_id = ''abc123'', sources = [],
          has_context = False, relevance_scores = None\<rparr> \<and>
   ''abc123'' \<noteq> [] \<and>
   snd (query sample_env sample_world ''What is X?'' (Some ''abc123'') 5) = sample_world"
proof -
  have i: "inj (uuid4 sample_env)" by (simp add: inj_def sample_env_def)
  have u: "uuid4 sample_env (uuid_count sample_world) = ''id-''"
    by (simp add: sample_env_def sample_world_def)
  have v1: "fst (query sample_env sample_world ''What is X?'' None 5) =
     Inr \<lparr>response = ''An answer.'', conversation_id = ''id-'', sources = [],
          has_context = False, relevance_scores = None\<rparr>"
    unfolding sample_query_value by (simp add: sample_env_def sample_world_def)
  have v2: "fst (query sample_env sample_world ''What is X?'' (Some ''abc123'') 5) =
     Inr \<lparr>response = ''An answer.'', conversation_id = ''abc123'', sources = [],
          has_context = False, relevance_scores = None\<rparr>"
    unfolding sample_query_value by simp
  from query_conversation_id [OF v1] query_conversation_id [OF v2] i u v1 v2
  show ?thesis by simp
qed


end
